theory Spec2Isabelle
  imports Main
begin

section \<open>Data model\<close>

text \<open>
  The loader of \<^verbatim>\<open>openapi3/swagger_loader.go\<close> works on a graph of heap objects that it
  mutates in place and recognises by pointer identity. A pointer is an address or nil.
\<close>

type_synonym addr = nat
type_synonym pointer = "addr option"

text \<open>
  The seven reference structs (\<^verbatim>\<open>HeaderRef\<close>, \<^verbatim>\<open>ParameterRef\<close>, \<^verbatim>\<open>RequestBodyRef\<close>,
  \<^verbatim>\<open>ResponseRef\<close>, \<^verbatim>\<open>SchemaRef\<close>, \<^verbatim>\<open>SecuritySchemeRef\<close>, \<^verbatim>\<open>ExampleRef\<close>) have the same two
  fields: the reference string \<^verbatim>\<open>Ref\<close> and the pointer \<^verbatim>\<open>Value\<close> to the concrete object.
  Their declarations are not part of the loader's file; the fields are those the loader
  reads and writes.
\<close>

record RefNode =
  Ref :: string
  Value :: pointer

type_synonym HeaderRef = RefNode
type_synonym ParameterRef = RefNode
type_synonym RequestBodyRef = RefNode
type_synonym ResponseRef = RefNode
type_synonym SchemaRef = RefNode
type_synonym SecuritySchemeRef = RefNode
type_synonym ExampleRef = RefNode

text \<open>
  Of a \<^verbatim>\<open>Header\<close>, a \<^verbatim>\<open>Parameter\<close> and a content type the loader reads the field
  \<^verbatim>\<open>Schema\<close> (a \<^verbatim>\<open>*SchemaRef\<close>); of a \<^verbatim>\<open>RequestBody\<close> and a \<^verbatim>\<open>Response\<close> the map
  \<^verbatim>\<open>Content\<close> from content-type names to content types; of a \<^verbatim>\<open>Schema\<close> the three
  places where schemas nest. A Go map is an association list (its iteration order is
  not fixed by the language, so any order of the list is a possible run), and a nil map
  is \<open>None\<close>.
\<close>

type_synonym table = "(string \<times> pointer) list option"

record SchemaSite =
  Schema :: pointer

type_synonym Header = SchemaSite
type_synonym Parameter = SchemaSite
type_synonym ContentType = SchemaSite

record ContentSite =
  Content :: table

type_synonym RequestBody = ContentSite
type_synonym Response = ContentSite

record Schema =
  Items :: pointer
  Properties :: table
  AdditionalProperties :: pointer

record Components =
  Headers :: table
  Parameters :: table
  RequestBodies :: table
  Responses :: table
  Schemas :: table
  SecuritySchemes :: table
  Examples :: table

record Operation =
  Parameters :: "pointer list option"
  RequestBody :: pointer
  Responses :: table

text \<open>
  Modelled from the spec: the method \<^verbatim>\<open>Operations()\<close> of a path item is not in the loader's
  file. A path item exposes zero or more operations keyed by HTTP method; it is
  represented by the operations it exposes.
\<close>

type_synonym PathItem = "Operation list"

record Swagger =
  Components :: Components
  Paths :: "(string \<times> PathItem option) list option"

text \<open>
  The seven types of reference struct. The key of the \<^verbatim>\<open>visited\<close> map is an \<^verbatim>\<open>interface{}\<close>
  holding a typed pointer: the pointer's type and its address (or nil).
\<close>

datatype refType =
    HeaderRefT
  | ParameterRefT
  | RequestBodyRefT
  | ResponseRefT
  | SchemaRefT
  | SecuritySchemeRefT
  | ExampleRefT

type_synonym key = "refType \<times> pointer"

text \<open>
  The state: the loader's \<^verbatim>\<open>visited\<close> map and the heap. The reference structs are stored by
  type and address, the objects they point to in one store for each type.
\<close>

record state =
  visited :: "key set"
  refs :: "refType \<Rightarrow> addr \<Rightarrow> RefNode"
  headers :: "addr \<Rightarrow> Header"
  parameters :: "addr \<Rightarrow> Parameter"
  requestBodies :: "addr \<Rightarrow> RequestBody"
  responses :: "addr \<Rightarrow> Response"
  contentTypes :: "addr \<Rightarrow> ContentType"
  schemas :: "addr \<Rightarrow> Schema"

abbreviation headerRefs :: "state \<Rightarrow> addr \<Rightarrow> HeaderRef" where
  "headerRefs s \<equiv> refs s HeaderRefT"

abbreviation parameterRefs :: "state \<Rightarrow> addr \<Rightarrow> ParameterRef" where
  "parameterRefs s \<equiv> refs s ParameterRefT"

abbreviation requestBodyRefs :: "state \<Rightarrow> addr \<Rightarrow> RequestBodyRef" where
  "requestBodyRefs s \<equiv> refs s RequestBodyRefT"

abbreviation responseRefs :: "state \<Rightarrow> addr \<Rightarrow> ResponseRef" where
  "responseRefs s \<equiv> refs s ResponseRefT"

abbreviation schemaRefs :: "state \<Rightarrow> addr \<Rightarrow> SchemaRef" where
  "schemaRefs s \<equiv> refs s SchemaRefT"

abbreviation securitySchemeRefs :: "state \<Rightarrow> addr \<Rightarrow> SecuritySchemeRef" where
  "securitySchemeRefs s \<equiv> refs s SecuritySchemeRefT"

abbreviation exampleRefs :: "state \<Rightarrow> addr \<Rightarrow> ExampleRef" where
  "exampleRefs s \<equiv> refs s ExampleRefT"

text \<open>\<^verbatim>\<open>component.Value = v\<close>, for the reference struct of type \<open>T\<close> at address \<open>c\<close>.\<close>

definition setValue :: "refType \<Rightarrow> addr \<Rightarrow> pointer \<Rightarrow> state \<Rightarrow> state" where
  "setValue T c v s = s\<lparr>refs := (refs s)(T := (refs s T)(c := (refs s T c)\<lparr>Value := v\<rparr>))\<rparr>"

record URL =
  Scheme :: string
  Host :: string
  Path :: string
  RawQuery :: string
  Fragment :: string

text \<open>
  The errors, named as in the spec's taxonomy. \<open>UnresolvableFragment\<close> is what
  \<^verbatim>\<open>failedToResolveRefFragment\<close> builds, \<open>UnresolvableFragmentPart\<close> what
  \<^verbatim>\<open>failedToResolveRefFragmentPart\<close> builds; the others are the \<^verbatim>\<open>fmt.Errorf\<close> calls of
  \<^verbatim>\<open>resolveComponent\<close> and \<^verbatim>\<open>LoadSwaggerFromURI\<close>, and \<open>Foreign\<close> is an error made outside
  the loader (reading a file, deserialising, a custom load function).
\<close>

datatype error =
    DisallowedExternalRef string
  | MalformedRefURI string
  | LoaderError string error
  | UnresolvableFragment string
  | UnresolvableFragmentPart string string
  | UnsupportedURI URL
  | Foreign string

definition failedToResolveRefFragment :: "string \<Rightarrow> error" where
  "failedToResolveRefFragment v = UnresolvableFragment v"

definition failedToResolveRefFragmentPart :: "string \<Rightarrow> string \<Rightarrow> error" where
  "failedToResolveRefFragmentPart v what = UnresolvableFragmentPart v what"

text \<open>
  A call returns its results and the state it leaves, or panics (a nil pointer is
  dereferenced), or is still running when the fuel is used up.
\<close>

datatype 'a result = Return 'a state | Panic | Diverged

text \<open>
  The loader's settings, and the library functions it calls: \<^verbatim>\<open>url.Parse\<close>,
  \<^verbatim>\<open>ioutil.ReadFile\<close> and \<^verbatim>\<open>json.Unmarshal\<close> (which allocates the objects of the document
  it reads).
\<close>

record SwaggerLoader =
  IsExternalRefsAllowed :: bool
  LoadSwaggerFromURIFunc :: "(URL \<Rightarrow> state \<Rightarrow> (Swagger option \<times> error option) result) option"

record environment =
  url_Parse :: "string \<Rightarrow> URL option"
  ioutil_ReadFile :: "string \<Rightarrow> error + string"
  json_Unmarshal :: "string \<Rightarrow> state \<Rightarrow> (error + Swagger) \<times> state"

section \<open>Strings and control flow\<close>

definition HasPrefix :: "string \<Rightarrow> string \<Rightarrow> bool" where
  "HasPrefix s p = (take (length p) s = p)"

text \<open>
  \<^verbatim>\<open>err := f(); if err != nil { return err }; rest\<close>: the rest runs in the state the call
  leaves, and only when the call returned nil.
\<close>

definition andThen :: "error option result \<Rightarrow> (state \<Rightarrow> error option result) \<Rightarrow> error option result" where
  "andThen r k =
     (case r of
        Return None s \<Rightarrow> k s
      | Return (Some err) s \<Rightarrow> Return (Some err) s
      | Panic \<Rightarrow> Panic
      | Diverged \<Rightarrow> Diverged)"

lemma andThen_cong [fundef_cong]:
  "r = r' \<Longrightarrow> (\<And>s. r' = Return None s \<Longrightarrow> k s = k' s) \<Longrightarrow> andThen r k = andThen r' k'"
  by (simp add: andThen_def split: result.splits option.splits)

text \<open>
  \<^verbatim>\<open>for _, x := range xs { err := f(x); if err != nil { return err } }\<close>
\<close>

fun forEach :: "('a \<Rightarrow> state \<Rightarrow> error option result) \<Rightarrow> 'a list \<Rightarrow> state \<Rightarrow> error option result" where
  "forEach f [] s = Return None s"
| "forEach f (x # xs) s = andThen (f x s) (\<lambda>s'. forEach f xs s')"

lemma forEach_cong [fundef_cong]:
  "xs = ys \<Longrightarrow> s = t \<Longrightarrow> (\<And>x u. x \<in> set ys \<Longrightarrow> f x u = g x u) \<Longrightarrow> forEach f xs s = forEach g ys t"
proof (induction ys arbitrary: xs s t)
  case Nil
  then show ?case by simp
next
  case (Cons y ys)
  then show ?case by (simp add: andThen_def split: result.splits option.splits)
qed

text \<open>\<^verbatim>\<open>definitions[id]\<close>: the pointer stored under the key, nil when the key is missing.\<close>

definition lookup :: "(string \<times> pointer) list \<Rightarrow> string \<Rightarrow> pointer" where
  "lookup m k = (case map_of m k of None \<Rightarrow> None | Some p \<Rightarrow> p)"

text \<open>The values a \<^verbatim>\<open>range\<close> loop over a map goes through; none for a nil map.\<close>

definition entries :: "table \<Rightarrow> pointer list" where
  "entries m = (case m of None \<Rightarrow> [] | Some kvs \<Rightarrow> map snd kvs)"

section \<open>The component locator\<close>

text \<open>
  The functions of the file call each other in a cycle: a resolver calls
  \<^verbatim>\<open>resolveComponent\<close>, which calls \<^verbatim>\<open>LoadSwaggerFromURI\<close>, which calls \<^verbatim>\<open>ResolveRefsIn\<close> on the
  document it has read, which calls the resolvers. The cycle is cut at the method
  \<^verbatim>\<open>LoadSwaggerFromURI\<close>: \<^verbatim>\<open>resolveComponent\<close> and the resolvers take it as the argument
  \<open>load\<close>, and it is defined last. The settings of the \<^verbatim>\<open>SwaggerLoader\<close> are \<open>L\<close>; its
  \<^verbatim>\<open>visited\<close> field is in the state.
\<close>

type_synonym loader = "URL \<Rightarrow> state \<Rightarrow> (Swagger option \<times> error option) result"

definition resolveComponent :: "SwaggerLoader \<Rightarrow> environment \<Rightarrow> loader \<Rightarrow> Swagger \<Rightarrow> string \<Rightarrow> string \<Rightarrow> state
      \<Rightarrow> (error + Components \<times> string) result" where
  "resolveComponent L E load swagger ref prefix s =
     (case
        (if \<not> HasPrefix ref ''#'' then
           (if \<not> IsExternalRefsAllowed L then Return (Inl (DisallowedExternalRef ref)) s
            else
              case url_Parse E ref of
                None \<Rightarrow> Return (Inl (MalformedRefURI ref)) s
              | Some parsedURL \<Rightarrow>
                  (case load (parsedURL\<lparr>Fragment := ''''\<rparr>) s of
                     Return (loaded, Some err) s' \<Rightarrow> Return (Inl (LoaderError ref err)) s'
                   | Return (loaded, None) s' \<Rightarrow> Return (Inr (loaded, Fragment parsedURL)) s'
                   | Panic \<Rightarrow> Panic
                   | Diverged \<Rightarrow> Diverged))
         else Return (Inr (Some swagger, ref)) s)
      of
        Return (Inl err) s' \<Rightarrow> Return (Inl err) s'
      | Return (Inr (swagger', ref')) s' \<Rightarrow>
          if \<not> HasPrefix ref' prefix then Return (Inl (failedToResolveRefFragment ref')) s'
          else if CHR ''/'' \<in> set (drop (length prefix) ref')
          then Return (Inl (failedToResolveRefFragmentPart ref' (drop (length prefix) ref'))) s'
          else
            (case swagger' of
               None \<Rightarrow> Panic
             | Some doc \<Rightarrow> Return (Inr (Components doc, drop (length prefix) ref')) s')
      | Panic \<Rightarrow> Panic
      | Diverged \<Rightarrow> Diverged)"

section \<open>The resolvers\<close>

text \<open>
  The first argument of a resolver is fuel: the depth of resolver calls still allowed.
  A resolver called without fuel has \<open>Diverged\<close>.
\<close>

fun resolveSchemaRef :: "nat \<Rightarrow> SwaggerLoader \<Rightarrow> environment \<Rightarrow> loader \<Rightarrow> Swagger \<Rightarrow> pointer \<Rightarrow> state
      \<Rightarrow> error option result" where
  "resolveSchemaRef 0 L E load swagger component s = Diverged"
| "resolveSchemaRef (Suc n) L E load swagger component s =
     (if (SchemaRefT, component) \<in> visited s then Return None s
      else
        case component of
          None \<Rightarrow> Panic
        | Some c \<Rightarrow>
            andThen
              (let s1 = s\<lparr>visited := insert ((SchemaRefT, component)) (visited s)\<rparr>;
                   ref = Ref (schemaRefs s1 c)
               in
                 if ref = [] then Return None s1
                 else
                   case resolveComponent L E load swagger ref ''#/components/schemas/'' s1 of
                     Return (Inl err) s2 \<Rightarrow> Return (Some err) s2
                   | Return (Inr (components, ident)) s2 \<Rightarrow>
                       (case Schemas components of
                          None \<Rightarrow> Return (Some (failedToResolveRefFragmentPart ref ''schemas'')) s2
                        | Some definitions \<Rightarrow>
                            (case lookup definitions ident of
                               None \<Rightarrow> Return (Some (failedToResolveRefFragmentPart ref ident)) s2
                             | Some resolved \<Rightarrow>
                                 andThen (resolveSchemaRef n L E load swagger (Some resolved) s2)
                                   (\<lambda>s3. Return None (setValue SchemaRefT c (Value (schemaRefs s3 resolved)) s3))))
                   | Panic \<Rightarrow> Panic
                   | Diverged \<Rightarrow> Diverged)
              (\<lambda>s4.
                 case Value (schemaRefs s4 c) of
                   None \<Rightarrow> Panic
                 | Some v \<Rightarrow>
                     andThen
                       (case Items (schemas s4 v) of
                          None \<Rightarrow> Return None s4
                        | Some items \<Rightarrow> resolveSchemaRef n L E load swagger (Some items) s4)
                       (\<lambda>s5.
                          andThen
                            (forEach (\<lambda>property s. resolveSchemaRef n L E load swagger property s)
                               (entries (Properties (schemas s5 v))) s5)
                            (\<lambda>s6.
                               case AdditionalProperties (schemas s6 v) of
                                 None \<Rightarrow> Return None s6
                               | Some additional \<Rightarrow>
                                   resolveSchemaRef n L E load swagger (Some additional) s6))))"

fun resolveHeaderRef :: "nat \<Rightarrow> SwaggerLoader \<Rightarrow> environment \<Rightarrow> loader \<Rightarrow> Swagger \<Rightarrow> pointer \<Rightarrow> state
      \<Rightarrow> error option result" where
  "resolveHeaderRef 0 L E load swagger component s = Diverged"
| "resolveHeaderRef (Suc n) L E load swagger component s =
     (if (HeaderRefT, component) \<in> visited s then Return None s
      else
        case component of
          None \<Rightarrow> Panic
        | Some c \<Rightarrow>
            andThen
              (let s1 = s\<lparr>visited := insert ((HeaderRefT, component)) (visited s)\<rparr>;
                   ref = Ref (headerRefs s1 c)
               in
                 if ref = [] then Return None s1
                 else
                   case resolveComponent L E load swagger ref ''#/components/headers/'' s1 of
                     Return (Inl err) s2 \<Rightarrow> Return (Some err) s2
                   | Return (Inr (components, ident)) s2 \<Rightarrow>
                       (case Headers components of
                          None \<Rightarrow> Return (Some (failedToResolveRefFragment ref)) s2
                        | Some definitions \<Rightarrow>
                            (case lookup definitions ident of
                               None \<Rightarrow> Return (Some (failedToResolveRefFragment ref)) s2
                             | Some resolved \<Rightarrow>
                                 andThen (resolveHeaderRef n L E load swagger (Some resolved) s2)
                                   (\<lambda>s3. Return None (setValue HeaderRefT c (Value (headerRefs s3 resolved)) s3))))
                   | Panic \<Rightarrow> Panic
                   | Diverged \<Rightarrow> Diverged)
              (\<lambda>s4.
                 case Value (headerRefs s4 c) of
                   None \<Rightarrow> Return None s4
                 | Some v \<Rightarrow>
                     (case Schema (headers s4 v) of
                        None \<Rightarrow> Return None s4
                      | Some schema \<Rightarrow> resolveSchemaRef n L E load swagger (Some schema) s4)))"

fun resolveParameterRef :: "nat \<Rightarrow> SwaggerLoader \<Rightarrow> environment \<Rightarrow> loader \<Rightarrow> Swagger \<Rightarrow> pointer \<Rightarrow> state
      \<Rightarrow> error option result" where
  "resolveParameterRef 0 L E load swagger component s = Diverged"
| "resolveParameterRef (Suc n) L E load swagger component s =
     (if (ParameterRefT, component) \<in> visited s then Return None s
      else
        case component of
          None \<Rightarrow> Panic
        | Some c \<Rightarrow>
            andThen
              (let s1 = s\<lparr>visited := insert ((ParameterRefT, component)) (visited s)\<rparr>;
                   ref = Ref (parameterRefs s1 c)
               in
                 if ref = [] then Return None s1
                 else
                   case resolveComponent L E load swagger ref ''#/components/parameters/'' s1 of
                     Return (Inl err) s2 \<Rightarrow> Return (Some err) s2
                   | Return (Inr (components, ident)) s2 \<Rightarrow>
                       (case Components.Parameters components of
                          None \<Rightarrow> Return (Some (failedToResolveRefFragmentPart ref ''parameters'')) s2
                        | Some definitions \<Rightarrow>
                            (case lookup definitions ident of
                               None \<Rightarrow> Return (Some (failedToResolveRefFragmentPart ref ident)) s2
                             | Some resolved \<Rightarrow>
                                 andThen (resolveParameterRef n L E load swagger (Some resolved) s2)
                                   (\<lambda>s3. Return None (setValue ParameterRefT c (Value (parameterRefs s3 resolved)) s3))))
                   | Panic \<Rightarrow> Panic
                   | Diverged \<Rightarrow> Diverged)
              (\<lambda>s4.
                 case Value (parameterRefs s4 c) of
                   None \<Rightarrow> Return None s4
                 | Some v \<Rightarrow>
                     (case Schema (parameters s4 v) of
                        None \<Rightarrow> Return None s4
                      | Some schema \<Rightarrow> resolveSchemaRef n L E load swagger (Some schema) s4)))"

fun resolveRequestBodyRef :: "nat \<Rightarrow> SwaggerLoader \<Rightarrow> environment \<Rightarrow> loader \<Rightarrow> Swagger \<Rightarrow> pointer \<Rightarrow> state
      \<Rightarrow> error option result" where
  "resolveRequestBodyRef 0 L E load swagger component s = Diverged"
| "resolveRequestBodyRef (Suc n) L E load swagger component s =
     (if (RequestBodyRefT, component) \<in> visited s then Return None s
      else
        case component of
          None \<Rightarrow> Panic
        | Some c \<Rightarrow>
            andThen
              (let s1 = s\<lparr>visited := insert ((RequestBodyRefT, component)) (visited s)\<rparr>;
                   ref = Ref (requestBodyRefs s1 c)
               in
                 if ref = [] then Return None s1
                 else
                   case resolveComponent L E load swagger ref ''#/components/requestBodies/'' s1 of
                     Return (Inl err) s2 \<Rightarrow> Return (Some err) s2
                   | Return (Inr (components, ident)) s2 \<Rightarrow>
                       (case RequestBodies components of
                          None \<Rightarrow> Return (Some (failedToResolveRefFragmentPart ref ''requestBodies'')) s2
                        | Some definitions \<Rightarrow>
                            (case lookup definitions ident of
                               None \<Rightarrow> Return (Some (failedToResolveRefFragmentPart ref ident)) s2
                             | Some resolved \<Rightarrow>
                                 andThen (resolveRequestBodyRef n L E load swagger (Some resolved) s2)
                                   (\<lambda>s3. Return None (setValue RequestBodyRefT c (Value (requestBodyRefs s3 resolved)) s3))))
                   | Panic \<Rightarrow> Panic
                   | Diverged \<Rightarrow> Diverged)
              (\<lambda>s4.
                 case Value (requestBodyRefs s4 c) of
                   None \<Rightarrow> Return None s4
                 | Some v \<Rightarrow>
                     forEach (\<lambda>contentType s.
                       case contentType of
                         None \<Rightarrow> Panic
                       | Some ct \<Rightarrow>
                           (case Schema (contentTypes s ct) of
                              None \<Rightarrow> Return None s
                            | Some schema \<Rightarrow> resolveSchemaRef n L E load swagger (Some schema) s))
                     (entries (Content (requestBodies s4 v))) s4))"

fun resolveResponseRef :: "nat \<Rightarrow> SwaggerLoader \<Rightarrow> environment \<Rightarrow> loader \<Rightarrow> Swagger \<Rightarrow> pointer \<Rightarrow> state
      \<Rightarrow> error option result" where
  "resolveResponseRef 0 L E load swagger component s = Diverged"
| "resolveResponseRef (Suc n) L E load swagger component s =
     (if (ResponseRefT, component) \<in> visited s then Return None s
      else
        case component of
          None \<Rightarrow> Panic
        | Some c \<Rightarrow>
            andThen
              (let s1 = s\<lparr>visited := insert ((ResponseRefT, component)) (visited s)\<rparr>;
                   ref = Ref (responseRefs s1 c)
               in
                 if ref = [] then Return None s1
                 else
                   case resolveComponent L E load swagger ref ''#/components/responses/'' s1 of
                     Return (Inl err) s2 \<Rightarrow> Return (Some err) s2
                   | Return (Inr (components, ident)) s2 \<Rightarrow>
                       (case Components.Responses components of
                          None \<Rightarrow> Return (Some (failedToResolveRefFragmentPart ref ''responses'')) s2
                        | Some definitions \<Rightarrow>
                            (case lookup definitions ident of
                               None \<Rightarrow> Return (Some (failedToResolveRefFragmentPart ref ident)) s2
                             | Some resolved \<Rightarrow>
                                 andThen (resolveResponseRef n L E load swagger (Some resolved) s2)
                                   (\<lambda>s3. Return None (setValue ResponseRefT c (Value (responseRefs s3 resolved)) s3))))
                   | Panic \<Rightarrow> Panic
                   | Diverged \<Rightarrow> Diverged)
              (\<lambda>s4.
                 case Value (responseRefs s4 c) of
                   None \<Rightarrow> Return None s4
                 | Some v \<Rightarrow>
                     forEach (\<lambda>contentType s.
                       case contentType of
                         None \<Rightarrow> Return None s
                       | Some ct \<Rightarrow>
                           (case Schema (contentTypes s ct) of
                              None \<Rightarrow> Return None s
                            | Some schema \<Rightarrow>
                                andThen (resolveSchemaRef n L E load swagger (Some schema) s)
                                  (\<lambda>s'. Return None (s'\<lparr>contentTypes := (contentTypes s')
                                     (ct := (contentTypes s' ct)\<lparr>Schema := Some schema\<rparr>)\<rparr>))))
                     (entries (Content (responses s4 v))) s4))"

fun resolveSecuritySchemeRef :: "nat \<Rightarrow> SwaggerLoader \<Rightarrow> environment \<Rightarrow> loader \<Rightarrow> Swagger \<Rightarrow> pointer \<Rightarrow> state
      \<Rightarrow> error option result" where
  "resolveSecuritySchemeRef 0 L E load swagger component s = Diverged"
| "resolveSecuritySchemeRef (Suc n) L E load swagger component s =
     (if (SecuritySchemeRefT, component) \<in> visited s then Return None s
      else
        case component of
          None \<Rightarrow> Panic
        | Some c \<Rightarrow>
            (let s1 = s\<lparr>visited := insert ((SecuritySchemeRefT, component)) (visited s)\<rparr>;
                 ref = Ref (securitySchemeRefs s1 c)
             in
               if ref = [] then Return None s1
               else
                 case resolveComponent L E load swagger ref ''#/components/securitySchemes/'' s1 of
                   Return (Inl err) s2 \<Rightarrow> Return (Some err) s2
                 | Return (Inr (components, ident)) s2 \<Rightarrow>
                     (case SecuritySchemes components of
                        None \<Rightarrow> Return (Some (failedToResolveRefFragmentPart ref ''securitySchemes'')) s2
                      | Some definitions \<Rightarrow>
                          (case lookup definitions ident of
                             None \<Rightarrow> Return (Some (failedToResolveRefFragmentPart ref ident)) s2
                           | Some resolved \<Rightarrow>
                               andThen (resolveSecuritySchemeRef n L E load swagger (Some resolved) s2)
                                 (\<lambda>s3. Return None (setValue SecuritySchemeRefT c (Value (securitySchemeRefs s3 resolved)) s3))))
                 | Panic \<Rightarrow> Panic
                 | Diverged \<Rightarrow> Diverged))"

text \<open>The resolver of examples keeps no record in \<^verbatim>\<open>visited\<close>, and its prefix ends without a slash.\<close>

fun resolveExampleRef :: "nat \<Rightarrow> SwaggerLoader \<Rightarrow> environment \<Rightarrow> loader \<Rightarrow> Swagger \<Rightarrow> pointer \<Rightarrow> state
      \<Rightarrow> error option result" where
  "resolveExampleRef 0 L E load swagger component s = Diverged"
| "resolveExampleRef (Suc n) L E load swagger component s =
     (case component of
        None \<Rightarrow> Panic
      | Some c \<Rightarrow>
          (let ref = Ref (exampleRefs s c)
           in
             if ref = [] then Return None s
             else
               case resolveComponent L E load swagger ref ''#/components/examples'' s of
                 Return (Inl err) s2 \<Rightarrow> Return (Some err) s2
               | Return (Inr (components, ident)) s2 \<Rightarrow>
                   (case Examples components of
                      None \<Rightarrow> Return (Some (failedToResolveRefFragmentPart ref ''examples'')) s2
                    | Some definitions \<Rightarrow>
                        (case lookup definitions ident of
                           None \<Rightarrow> Return (Some (failedToResolveRefFragmentPart ref ident)) s2
                         | Some resolved \<Rightarrow>
                             andThen (resolveExampleRef n L E load swagger (Some resolved) s2)
                               (\<lambda>s3. Return None (setValue ExampleRefT c (Value (exampleRefs s3 resolved)) s3))))
               | Panic \<Rightarrow> Panic
               | Diverged \<Rightarrow> Diverged))"

section \<open>The walk over a document, and loading a document\<close>

text \<open>
  \<open>resolveRefsWith load\<close> is the body of \<^verbatim>\<open>ResolveRefsIn\<close>, and \<open>loadDataWith load\<close> the body
  of \<^verbatim>\<open>LoadSwaggerFromData\<close>, for a given \<^verbatim>\<open>LoadSwaggerFromURI\<close>.
\<close>

definition resolveRefsWith :: "loader \<Rightarrow> nat \<Rightarrow> SwaggerLoader \<Rightarrow> environment \<Rightarrow> Swagger \<Rightarrow> state
      \<Rightarrow> error option result" where
  "resolveRefsWith load n L E swagger s0 =
     andThen (forEach (\<lambda>component s. resolveHeaderRef n L E load swagger component s)
                (entries (Headers (Components swagger))) (s0\<lparr>visited := {}\<rparr>)) (\<lambda>s1.
     andThen (forEach (\<lambda>component s. resolveParameterRef n L E load swagger component s)
                (entries (Components.Parameters (Components swagger))) s1) (\<lambda>s2.
     andThen (forEach (\<lambda>component s. resolveRequestBodyRef n L E load swagger component s)
                (entries (RequestBodies (Components swagger))) s2) (\<lambda>s3.
     andThen (forEach (\<lambda>component s. resolveResponseRef n L E load swagger component s)
                (entries (Components.Responses (Components swagger))) s3) (\<lambda>s4.
     andThen (forEach (\<lambda>component s. resolveSchemaRef n L E load swagger component s)
                (entries (Schemas (Components swagger))) s4) (\<lambda>s5.
     andThen (forEach (\<lambda>component s. resolveSecuritySchemeRef n L E load swagger component s)
                (entries (SecuritySchemes (Components swagger))) s5) (\<lambda>s6.
       case Paths swagger of
         None \<Rightarrow> Return None s6
       | Some paths \<Rightarrow>
           forEach (\<lambda>pathItem s.
             case pathItem of
               None \<Rightarrow> Return None s
             | Some operations \<Rightarrow>
                 forEach (\<lambda>operation s.
                   andThen
                     (case Operation.Parameters operation of
                        None \<Rightarrow> Return None s
                      | Some params \<Rightarrow>
                          forEach (\<lambda>parameter s. resolveParameterRef n L E load swagger parameter s)
                            params s)
                     (\<lambda>s'.
                        andThen
                          (case Operation.RequestBody operation of
                             None \<Rightarrow> Return None s'
                           | Some requestBody \<Rightarrow>
                               resolveRequestBodyRef n L E load swagger (Some requestBody) s')
                          (\<lambda>s''.
                             forEach (\<lambda>response s. resolveResponseRef n L E load swagger response s)
                               (entries (Operation.Responses operation)) s'')))
                 operations s)
           (map snd paths) s6))))))"

definition loadDataWith :: "loader \<Rightarrow> nat \<Rightarrow> SwaggerLoader \<Rightarrow> environment \<Rightarrow> string \<Rightarrow> state
      \<Rightarrow> (Swagger option \<times> error option) result" where
  "loadDataWith load n L E data s =
     (case json_Unmarshal E data s of
        (Inl err, s') \<Rightarrow> Return (None, Some err) s'
      | (Inr swagger, s') \<Rightarrow>
          (case resolveRefsWith load n L E swagger s' of
             Return err s'' \<Rightarrow> Return (Some swagger, err) s''
           | Panic \<Rightarrow> Panic
           | Diverged \<Rightarrow> Diverged))"

text \<open>
  \<^verbatim>\<open>LoadSwaggerFromURI\<close>: the custom function when one is set; otherwise a local file is read
  and its references are resolved, by the same loader with one unit of fuel less.
\<close>

primrec LoadSwaggerFromURI :: "nat \<Rightarrow> SwaggerLoader \<Rightarrow> environment \<Rightarrow> loader" where
  "LoadSwaggerFromURI 0 L E = (\<lambda>location s. Diverged)"
| "LoadSwaggerFromURI (Suc n) L E = (\<lambda>location s.
     case LoadSwaggerFromURIFunc L of
       Some f \<Rightarrow> f location s
     | None \<Rightarrow>
         if Scheme location \<noteq> '''' \<or> Host location \<noteq> '''' \<or> RawQuery location \<noteq> ''''
         then Return (None, Some (UnsupportedURI location)) s
         else
           (case ioutil_ReadFile E (Path location) of
              Inl err \<Rightarrow> Return (None, Some err) s
            | Inr data \<Rightarrow> loadDataWith (LoadSwaggerFromURI n L E) n L E data s))"

definition LoadSwaggerFromData :: "nat \<Rightarrow> SwaggerLoader \<Rightarrow> environment \<Rightarrow> string \<Rightarrow> state
      \<Rightarrow> (Swagger option \<times> error option) result" where
  "LoadSwaggerFromData n L E data s = loadDataWith (LoadSwaggerFromURI n L E) n L E data s"

definition LoadSwaggerFromFile :: "nat \<Rightarrow> SwaggerLoader \<Rightarrow> environment \<Rightarrow> string \<Rightarrow> state
      \<Rightarrow> (Swagger option \<times> error option) result" where
  "LoadSwaggerFromFile n L E path s =
     (case LoadSwaggerFromURIFunc L of
        Some f \<Rightarrow> f \<lparr>Scheme = '''', Host = '''', Path = path, RawQuery = '''', Fragment = ''''\<rparr> s
      | None \<Rightarrow>
          (case ioutil_ReadFile E path of
             Inl err \<Rightarrow> Return (None, Some err) s
           | Inr data \<Rightarrow> LoadSwaggerFromData n L E data s))"

definition ResolveRefsIn :: "nat \<Rightarrow> SwaggerLoader \<Rightarrow> environment \<Rightarrow> Swagger \<Rightarrow> state \<Rightarrow> error option result" where
  "ResolveRefsIn n L E swagger s = resolveRefsWith (LoadSwaggerFromURI n L E) n L E swagger s"

text \<open>\<^verbatim>\<open>NewSwaggerLoader\<close> returns the zero value: external references are not allowed.\<close>

definition NewSwaggerLoader :: SwaggerLoader where
  "NewSwaggerLoader = \<lparr>IsExternalRefsAllowed = False, LoadSwaggerFromURIFunc = None\<rparr>"

section \<open>What the component locator does with the text after the \<open>#\<close>\<close>

text \<open>
  The spec's steps 2 to 4 of the locator, in its words: the remainder must start with the
  expected prefix, otherwise UnresolvableFragment; the text after the prefix is the
  identifier and must contain no path separator, otherwise UnresolvableFragmentPart;
  return the document's components and the bare identifier.
\<close>

definition locate :: "Swagger \<Rightarrow> string \<Rightarrow> string \<Rightarrow> state \<Rightarrow> (error + Components \<times> string) result" where
  "locate doc remainder prefix s =
     (if \<not> HasPrefix remainder prefix then Return (Inl (UnresolvableFragment remainder)) s
      else if CHR ''/'' \<in> set (drop (length prefix) remainder)
      then Return (Inl (UnresolvableFragmentPart remainder (drop (length prefix) remainder))) s
      else Return (Inr (Components doc, drop (length prefix) remainder)) s)"

section \<open>Concrete documents\<close>

text \<open>
  A heap in which every object is the zero value of its type, a document without
  components, and a world without files.
\<close>

definition zeroRef :: RefNode where
  "zeroRef = \<lparr>Ref = '''', Value = None\<rparr>"

definition zeroHeap :: state where
  "zeroHeap = \<lparr>visited = {}, refs = (\<lambda>T a. zeroRef),
     headers = (\<lambda>a. \<lparr>Schema = None\<rparr>), parameters = (\<lambda>a. \<lparr>Schema = None\<rparr>),
     requestBodies = (\<lambda>a. \<lparr>Content = None\<rparr>), responses = (\<lambda>a. \<lparr>Content = None\<rparr>),
     contentTypes = (\<lambda>a. \<lparr>Schema = None\<rparr>),
     schemas = (\<lambda>a. \<lparr>Items = None, Properties = None, AdditionalProperties = None\<rparr>)\<rparr>"

definition zeroComponents :: Components where
  "zeroComponents = \<lparr>Headers = None, Parameters = None, RequestBodies = None, Responses = None,
     Schemas = None, SecuritySchemes = None, Examples = None\<rparr>"

definition zeroSwagger :: Swagger where
  "zeroSwagger = \<lparr>Components = zeroComponents, Paths = None\<rparr>"

definition noFiles :: environment where
  "noFiles = \<lparr>url_Parse = (\<lambda>ref. None),
     ioutil_ReadFile = (\<lambda>path. Inl (Foreign ''no such file'')),
     json_Unmarshal = (\<lambda>data s. (Inl (Foreign ''unexpected end of JSON input''), s))\<rparr>"

text \<open>
  A world in which \<^verbatim>\<open>other.json#/components/schemas/X\<close> parses, as \<^verbatim>\<open>url.Parse\<close> does it, into
  the path \<^verbatim>\<open>other.json\<close> and the fragment \<^verbatim>\<open>/components/schemas/X\<close> (the fragment of a Go URL
  is the text after the \<open>#\<close>), and a custom load function that returns the document
  without components for every location.
\<close>

definition otherJson :: URL where
  "otherJson = \<lparr>Scheme = '''', Host = '''', Path = ''other.json'', RawQuery = '''',
     Fragment = ''/components/schemas/X''\<rparr>"

definition otherFile :: environment where
  "otherFile = noFiles\<lparr>url_Parse := (\<lambda>ref.
     if ref = ''other.json#/components/schemas/X'' then Some otherJson else None)\<rparr>"

definition externalLoader :: SwaggerLoader where
  "externalLoader = \<lparr>IsExternalRefsAllowed = True,
     LoadSwaggerFromURIFunc = Some (\<lambda>location s. Return (Some zeroSwagger, None) s)\<rparr>"

text \<open>A parameter that refers to itself.\<close>

definition selfParameter :: Swagger where
  "selfParameter = zeroSwagger\<lparr>Components := zeroComponents\<lparr>Components.Parameters := Some [(''A'', Some 0)]\<rparr>\<rparr>"

definition selfParameterHeap :: state where
  "selfParameterHeap = zeroHeap\<lparr>refs := (refs zeroHeap)(ParameterRefT := (parameterRefs zeroHeap)
      (0 := \<lparr>Ref = ''#/components/parameters/A'', Value = None\<rparr>))\<rparr>"

text \<open>Three schemas A, B and C: A refers to B, B to C, and C back to A.\<close>

definition cycleABC :: Swagger where
  "cycleABC = zeroSwagger\<lparr>Components := zeroComponents
     \<lparr>Schemas := Some [(''A'', Some 0), (''B'', Some 1), (''C'', Some 2)]\<rparr>\<rparr>"

definition cycleABCHeap :: state where
  "cycleABCHeap = zeroHeap\<lparr>refs := (refs zeroHeap)(SchemaRefT := (schemaRefs zeroHeap)
      (0 := \<lparr>Ref = ''#/components/schemas/B'', Value = None\<rparr>,
       1 := \<lparr>Ref = ''#/components/schemas/C'', Value = None\<rparr>,
       2 := \<lparr>Ref = ''#/components/schemas/A'', Value = None\<rparr>))\<rparr>"

text \<open>
  The same three schemas, with C holding a value whose items refer back to A (the schema
  reference at address 3).
\<close>

definition cycleItemsHeap :: state where
  "cycleItemsHeap = zeroHeap
     \<lparr>refs := (refs zeroHeap)
        (SchemaRefT := (schemaRefs zeroHeap)
           (0 := \<lparr>Ref = ''#/components/schemas/B'', Value = None\<rparr>,
            1 := \<lparr>Ref = ''#/components/schemas/C'', Value = None\<rparr>,
            2 := \<lparr>Ref = '''', Value = Some 0\<rparr>,
            3 := \<lparr>Ref = ''#/components/schemas/A'', Value = None\<rparr>)),
      schemas := (schemas zeroHeap)
        (0 := \<lparr>Items = Some 3, Properties = None, AdditionalProperties = None\<rparr>)\<rparr>"

text \<open>One schema A without a reference string and without a value.\<close>

definition emptySchemaRef :: Swagger where
  "emptySchemaRef = zeroSwagger\<lparr>Components := zeroComponents\<lparr>Schemas := Some [(''A'', Some 0)]\<rparr>\<rparr>"

text \<open>
  Two examples: E refers to itself with a reference string the example resolver accepts
  (its prefix has no final slash), and F refers to E the way the reference grammar
  writes it.
\<close>

definition twoExamples :: Swagger where
  "twoExamples = zeroSwagger\<lparr>Components := zeroComponents
     \<lparr>Examples := Some [(''E'', Some 0), (''F'', Some 1)]\<rparr>\<rparr>"

definition twoExamplesHeap :: state where
  "twoExamplesHeap = zeroHeap\<lparr>refs := (refs zeroHeap)(ExampleRefT := (exampleRefs zeroHeap)
      (0 := \<lparr>Ref = ''#/components/examplesE'', Value = None\<rparr>,
       1 := \<lparr>Ref = ''#/components/examples/E'', Value = None\<rparr>))\<rparr>"

text \<open>A header that refers to a header H of a document without a table of headers.\<close>

definition danglingHeaderHeap :: state where
  "danglingHeaderHeap = zeroHeap\<lparr>refs := (refs zeroHeap)(HeaderRefT := (headerRefs zeroHeap)
      (0 := \<lparr>Ref = ''#/components/headers/H'', Value = None\<rparr>))\<rparr>"

text \<open>
  The documents of the flattening theorem: two schemas Pet and Person whose properties
  refer to each other, a chain of schemas A, B, Pet, a parameter \<open>limit\<close> whose schema
  refers to A, and one operation whose parameter refers to \<open>limit\<close>.
\<close>

definition petStore :: Swagger where
  "petStore = \<lparr>Components = zeroComponents
       \<lparr>Components.Parameters := Some [(''limit'', Some 0)],
        Schemas := Some [(''Pet'', Some 0), (''Person'', Some 1), (''A'', Some 4), (''B'', Some 5)]\<rparr>,
     Paths = Some [(''/pets'', Some [\<lparr>Parameters = Some [Some 1], RequestBody = None, Responses = None\<rparr>])]\<rparr>"

definition petHeap :: state where
  "petHeap = zeroHeap
     \<lparr>refs := (refs zeroHeap)
        (ParameterRefT := (parameterRefs zeroHeap)
           (0 := \<lparr>Ref = '''', Value = Some 0\<rparr>,
            1 := \<lparr>Ref = ''#/components/parameters/limit'', Value = None\<rparr>),
         SchemaRefT := (schemaRefs zeroHeap)
           (0 := \<lparr>Ref = '''', Value = Some 0\<rparr>,
            1 := \<lparr>Ref = '''', Value = Some 1\<rparr>,
            2 := \<lparr>Ref = ''#/components/schemas/Person'', Value = None\<rparr>,
            3 := \<lparr>Ref = ''#/components/schemas/Pet'', Value = None\<rparr>,
            4 := \<lparr>Ref = ''#/components/schemas/B'', Value = None\<rparr>,
            5 := \<lparr>Ref = ''#/components/schemas/Pet'', Value = None\<rparr>,
            6 := \<lparr>Ref = ''#/components/schemas/A'', Value = None\<rparr>)),
      parameters := (parameters zeroHeap)(0 := \<lparr>Schema = Some 6\<rparr>),
      schemas := (schemas zeroHeap)
        (0 := \<lparr>Items = None, Properties = Some [(''owner'', Some 2)], AdditionalProperties = None\<rparr>,
         1 := \<lparr>Items = None, Properties = Some [(''pet'', Some 3)], AdditionalProperties = None\<rparr>)\<rparr>"

text \<open>
  A schema A that has both a reference string (to T) and a value of its own, and a
  schema T whose items refer to A.
\<close>

definition staleStore :: Swagger where
  "staleStore = zeroSwagger\<lparr>Components := zeroComponents\<lparr>Schemas := Some [(''A'', Some 0), (''T'', Some 1)]\<rparr>\<rparr>"

definition staleHeap :: state where
  "staleHeap = zeroHeap
     \<lparr>refs := (refs zeroHeap)
        (SchemaRefT := (schemaRefs zeroHeap)
           (0 := \<lparr>Ref = ''#/components/schemas/T'', Value = Some 5\<rparr>,
            1 := \<lparr>Ref = '''', Value = Some 6\<rparr>,
            2 := \<lparr>Ref = ''#/components/schemas/A'', Value = None\<rparr>)),
      schemas := (schemas zeroHeap)
        (6 := \<lparr>Items = Some 2, Properties = None, AdditionalProperties = None\<rparr>)\<rparr>"

lemmas concrete_defs =
  NewSwaggerLoader_def zeroRef_def zeroHeap_def zeroComponents_def zeroSwagger_def noFiles_def
  otherJson_def otherFile_def externalLoader_def selfParameter_def selfParameterHeap_def cycleABC_def
  cycleABCHeap_def emptySchemaRef_def twoExamples_def twoExamplesHeap_def danglingHeaderHeap_def
  petStore_def petHeap_def staleStore_def staleHeap_def cycleItemsHeap_def

lemmas run_defs =
  ResolveRefsIn_def resolveRefsWith_def resolveComponent_def andThen_def entries_def lookup_def
  HasPrefix_def failedToResolveRefFragment_def failedToResolveRefFragmentPart_def Let_def
  setValue_def

section \<open>The graph of references\<close>

text \<open>
  The table and the prefix each resolver uses, and the entry a reference string names:
  the reference string must start with the prefix, the rest must be free of \<open>/\<close>, and
  the rest is looked up in the table of the document.
\<close>

definition tableOf :: "refType \<Rightarrow> Components \<Rightarrow> table" where
  "tableOf T components =
     (case T of
        HeaderRefT \<Rightarrow> Headers components
      | ParameterRefT \<Rightarrow> Components.Parameters components
      | RequestBodyRefT \<Rightarrow> RequestBodies components
      | ResponseRefT \<Rightarrow> Components.Responses components
      | SchemaRefT \<Rightarrow> Schemas components
      | SecuritySchemeRefT \<Rightarrow> SecuritySchemes components
      | ExampleRefT \<Rightarrow> Examples components)"

definition prefixOf :: "refType \<Rightarrow> string" where
  "prefixOf T =
     (case T of
        HeaderRefT \<Rightarrow> ''#/components/headers/''
      | ParameterRefT \<Rightarrow> ''#/components/parameters/''
      | RequestBodyRefT \<Rightarrow> ''#/components/requestBodies/''
      | ResponseRefT \<Rightarrow> ''#/components/responses/''
      | SchemaRefT \<Rightarrow> ''#/components/schemas/''
      | SecuritySchemeRefT \<Rightarrow> ''#/components/securitySchemes/''
      | ExampleRefT \<Rightarrow> ''#/components/examples'')"

definition target :: "Swagger \<Rightarrow> refType \<Rightarrow> string \<Rightarrow> pointer" where
  "target swagger T ref =
     (if HasPrefix ref (prefixOf T) \<and> CHR ''/'' \<notin> set (drop (length (prefixOf T)) ref)
      then (case tableOf T (Components swagger) of
              None \<Rightarrow> None
            | Some definitions \<Rightarrow> lookup definitions (drop (length (prefixOf T)) ref))
      else None)"

text \<open>
  The schema references nested in the object a reference of type \<open>T\<close> points to: the
  \<^verbatim>\<open>Schema\<close> of a header or parameter, the \<^verbatim>\<open>Schema\<close> of every content type of a request
  body or response, and \<^verbatim>\<open>Items\<close>, \<^verbatim>\<open>Properties\<close> and \<^verbatim>\<open>AdditionalProperties\<close> of a schema.
\<close>

definition nonNil :: "pointer \<Rightarrow> pointer list" where
  "nonNil p = (case p of None \<Rightarrow> [] | Some a \<Rightarrow> [Some a])"

definition nested :: "state \<Rightarrow> refType \<Rightarrow> addr \<Rightarrow> pointer list" where
  "nested s T v =
     (case T of
        HeaderRefT \<Rightarrow> nonNil (Schema (headers s v))
      | ParameterRefT \<Rightarrow> nonNil (Schema (parameters s v))
      | RequestBodyRefT \<Rightarrow>
          concat (map (\<lambda>contentType. case contentType of None \<Rightarrow> [] | Some ct \<Rightarrow> nonNil (Schema (contentTypes s ct)))
            (entries (Content (requestBodies s v))))
      | ResponseRefT \<Rightarrow>
          concat (map (\<lambda>contentType. case contentType of None \<Rightarrow> [] | Some ct \<Rightarrow> nonNil (Schema (contentTypes s ct)))
            (entries (Content (responses s v))))
      | SchemaRefT \<Rightarrow>
          nonNil (Items (schemas s v)) @ entries (Properties (schemas s v))
            @ nonNil (AdditionalProperties (schemas s v))
      | SecuritySchemeRefT \<Rightarrow> []
      | ExampleRefT \<Rightarrow> [])"

text \<open>
  The references the walk starts from: the entries of the six component tables it reads
  (not the examples), and the parameters, request body and responses of every operation of
  every path item.
\<close>

definition operationRoots :: "Operation \<Rightarrow> key set" where
  "operationRoots operation =
     Pair ParameterRefT ` set (case Operation.Parameters operation of None \<Rightarrow> [] | Some params \<Rightarrow> params) \<union>
     Pair RequestBodyRefT ` set (nonNil (Operation.RequestBody operation)) \<union>
     Pair ResponseRefT ` set (entries (Operation.Responses operation))"

definition pathItems :: "Swagger \<Rightarrow> PathItem option list" where
  "pathItems swagger = (case Paths swagger of None \<Rightarrow> [] | Some paths \<Rightarrow> map snd paths)"

definition pathItemRoots :: "PathItem option \<Rightarrow> key set" where
  "pathItemRoots pathItem = (case pathItem of None \<Rightarrow> {} | Some operations \<Rightarrow> \<Union> (operationRoots ` set operations))"

definition componentRoots :: "Swagger \<Rightarrow> key set" where
  "componentRoots swagger =
     Pair HeaderRefT ` set (entries (Headers (Components swagger))) \<union>
     Pair ParameterRefT ` set (entries (Components.Parameters (Components swagger))) \<union>
     Pair RequestBodyRefT ` set (entries (RequestBodies (Components swagger))) \<union>
     Pair ResponseRefT ` set (entries (Components.Responses (Components swagger))) \<union>
     Pair SchemaRefT ` set (entries (Schemas (Components swagger))) \<union>
     Pair SecuritySchemeRefT ` set (entries (SecuritySchemes (Components swagger)))"

definition roots :: "Swagger \<Rightarrow> key set" where
  "roots swagger = componentRoots swagger \<union> \<Union> (pathItemRoots ` set (pathItems swagger))"

text \<open>
  The references reachable from the roots in a state: through the entry a reference
  string names, and through the schema references nested in a value.
\<close>

inductive_set reachable :: "Swagger \<Rightarrow> state \<Rightarrow> key set" for swagger :: Swagger and s :: state where
  root: "k \<in> roots swagger \<Longrightarrow> k \<in> reachable swagger s"
| hop: "(T, Some c) \<in> reachable swagger s \<Longrightarrow> Ref (refs s T c) \<noteq> [] \<Longrightarrow>
       target swagger T (Ref (refs s T c)) = Some t \<Longrightarrow> (T, Some t) \<in> reachable swagger s"
| nest: "(T, Some c) \<in> reachable swagger s \<Longrightarrow> Value (refs s T c) = Some v \<Longrightarrow>
       p \<in> set (nested s T v) \<Longrightarrow> (SchemaRefT, p) \<in> reachable swagger s"



section \<open>Assertions about a pass in progress\<close>

text \<open>
  \<open>keeps s s'\<close>: what a resolver call that starts in \<open>s\<close> and returns in \<open>s'\<close> leaves alone.
  Visited references stay visited; the objects references point to are not written;
  reference strings are not written; and a reference struct is written only if it was
  not visited before the call, is visited after it, carries a reference string and had
  no value.
\<close>

definition keeps :: "state \<Rightarrow> state \<Rightarrow> bool" where
  "keeps s s' =
     (visited s \<subseteq> visited s' \<and>
      headers s' = headers s \<and> parameters s' = parameters s \<and> requestBodies s' = requestBodies s \<and>
      responses s' = responses s \<and> contentTypes s' = contentTypes s \<and> schemas s' = schemas s \<and>
      (\<forall>T c. Ref (refs s' T c) = Ref (refs s T c) \<and>
         ((T, Some c) \<in> visited s \<or> (T, Some c) \<notin> visited s' \<or> Value (refs s T c) \<noteq> None \<or>
          Ref (refs s T c) = [] \<longrightarrow> refs s' T c = refs s T c)))"

text \<open>\<open>pending s\<close>: a reference that is not visited yet and carries a reference string has no value.\<close>

definition pending :: "state \<Rightarrow> bool" where
  "pending s = (\<forall>T c. (T, Some c) \<notin> visited s \<longrightarrow> Ref (refs s T c) \<noteq> [] \<longrightarrow> Value (refs s T c) = None)"

text \<open>
  \<open>linked\<close>: a reference with a reference string names an entry that is visited, and if it
  has a value, it is the value of that entry. \<open>descended\<close>: a schema reference has a value,
  and the schema references nested in the value of a reference are visited. \<open>settled\<close>:
  both, for a key that is not nil.
\<close>

definition linked :: "Swagger \<Rightarrow> state \<Rightarrow> refType \<Rightarrow> addr \<Rightarrow> bool" where
  "linked swagger s T c =
     (Ref (refs s T c) \<noteq> [] \<longrightarrow>
        (\<exists>t. target swagger T (Ref (refs s T c)) = Some t \<and> (T, Some t) \<in> visited s \<and>
             (Value (refs s T c) \<noteq> None \<longrightarrow> Value (refs s T t) = Value (refs s T c))))"

definition descended :: "state \<Rightarrow> refType \<Rightarrow> addr \<Rightarrow> bool" where
  "descended s T c =
     ((T = SchemaRefT \<longrightarrow> Value (refs s T c) \<noteq> None) \<and>
      (\<forall>v p. Value (refs s T c) = Some v \<longrightarrow> p \<in> set (nested s T v) \<longrightarrow> (SchemaRefT, p) \<in> visited s))"

definition settled :: "Swagger \<Rightarrow> state \<Rightarrow> key \<Rightarrow> bool" where
  "settled swagger s k =
     (case snd k of None \<Rightarrow> False | Some c \<Rightarrow> linked swagger s (fst k) c \<and> descended s (fst k) c)"

text \<open>\<open>advances\<close>: the postcondition of a resolver call: every reference it has newly visited is settled.\<close>

definition advances :: "Swagger \<Rightarrow> state \<Rightarrow> state \<Rightarrow> bool" where
  "advances swagger s s' =
     (keeps s s' \<and> (\<forall>k. k \<in> visited s' \<longrightarrow> k \<notin> visited s \<longrightarrow> settled swagger s' k))"

text \<open>
  \<open>flattens\<close>: what the block \<^verbatim>\<open>// Resolve ref\<close> of a resolver does when it succeeds with
  external references disabled, given the resolver for the target. \<open>flattened\<close>: what is
  known after it.
\<close>

definition flattens :: "(pointer \<Rightarrow> state \<Rightarrow> error option result) \<Rightarrow> Swagger \<Rightarrow> refType \<Rightarrow> addr \<Rightarrow> state \<Rightarrow> state \<Rightarrow> bool" where
  "flattens resolve swagger T c s s4 =
     (if Ref (refs s T c) = [] then s4 = s\<lparr>visited := insert (T, Some c) (visited s)\<rparr>
      else \<exists>t s3. target swagger T (Ref (refs s T c)) = Some t \<and>
             resolve (Some t) (s\<lparr>visited := insert (T, Some c) (visited s)\<rparr>) = Return None s3 \<and>
             s4 = setValue T c (Value (refs s3 T t)) s3)"

definition flattened :: "Swagger \<Rightarrow> refType \<Rightarrow> addr \<Rightarrow> state \<Rightarrow> state \<Rightarrow> bool" where
  "flattened swagger T c s s4 =
     (keeps s s4 \<and> (T, Some c) \<in> visited s4 \<and> linked swagger s4 T c \<and>
      (\<forall>k. k \<in> visited s4 \<longrightarrow> k \<notin> visited s \<longrightarrow> k \<noteq> (T, Some c) \<longrightarrow> settled swagger s4 k))"

text \<open>\<open>ensures r Q\<close>: if the call returned nil, the state it left satisfies \<open>Q\<close>.\<close>

definition ensures :: "error option result \<Rightarrow> (state \<Rightarrow> bool) \<Rightarrow> bool" where
  "ensures r Q = (\<forall>s'. r = Return None s' \<longrightarrow> Q s')"

text \<open>
  \<open>finished r r'\<close>: when the run \<open>r\<close> has come to an end (it is not \<open>Diverged\<close>), the run \<open>r'\<close>,
  which has more fuel, has come to the same end.
\<close>

definition finished :: "'a result \<Rightarrow> 'a result \<Rightarrow> bool" where
  "finished r r' = (r \<noteq> Diverged \<longrightarrow> r' = r)"

section \<open>The component locator: claims C7 and C8\<close>

text \<open>
  C7. For every reference string and expected prefix: when the remainder (the reference
  string itself when it starts with \<open>#\<close>; the fragment of an external reference that has
  been loaded) does not start with the prefix, the locator fails with
  UnresolvableFragment; otherwise, when the text after the prefix contains \<open>/\<close>, it fails
  with UnresolvableFragmentPart; otherwise it returns the components of the document
  (the given one, or the loaded one) and the bare identifier.
\<close>

theorem resolveComponent_locates:
  "(HasPrefix ref ''#'' \<longrightarrow>
      resolveComponent L E load swagger ref prefix s = locate swagger ref prefix s) \<and>
   (\<not> HasPrefix ref ''#'' \<and> IsExternalRefsAllowed L \<and> url_Parse E ref = Some u \<and>
    load (u\<lparr>Fragment := ''''\<rparr>) s = Return (Some doc, None) s' \<longrightarrow>
      resolveComponent L E load swagger ref prefix s = locate doc (Fragment u) prefix s')"
  by (simp add: resolveComponent_def locate_def failedToResolveRefFragment_def
      failedToResolveRefFragmentPart_def)

theorem resolveComponent_locates_witness:
  "HasPrefix ''#/components/schemas/Pet'' ''#'' \<and>
   resolveComponent NewSwaggerLoader noFiles (LoadSwaggerFromURI 1 NewSwaggerLoader noFiles) zeroSwagger
     ''#/components/schemas/Pet'' ''#/components/schemas/'' zeroHeap
     = Return (Inr (zeroComponents, ''Pet'')) zeroHeap \<and>
   resolveComponent NewSwaggerLoader noFiles (LoadSwaggerFromURI 1 NewSwaggerLoader noFiles) zeroSwagger
     ''#/components/schemas/a/b'' ''#/components/schemas/'' zeroHeap
     = Return (Inl (UnresolvableFragmentPart ''#/components/schemas/a/b'' ''a/b'')) zeroHeap \<and>
   resolveComponent NewSwaggerLoader noFiles (LoadSwaggerFromURI 1 NewSwaggerLoader noFiles) zeroSwagger
     ''#/components/schemas/Pet'' ''#/components/parameters/'' zeroHeap
     = Return (Inl (UnresolvableFragment ''#/components/schemas/Pet'')) zeroHeap \<and>
   \<not> HasPrefix ''other.json#/components/schemas/X'' ''#'' \<and>
   IsExternalRefsAllowed externalLoader \<and>
   url_Parse otherFile ''other.json#/components/schemas/X'' = Some otherJson \<and>
   LoadSwaggerFromURI 1 externalLoader otherFile (otherJson\<lparr>Fragment := ''''\<rparr>) zeroHeap
     = Return (Some zeroSwagger, None) zeroHeap \<and>
   resolveComponent externalLoader otherFile (LoadSwaggerFromURI 1 externalLoader otherFile) selfParameter
     ''other.json#/components/schemas/X'' ''#/components/schemas/'' zeroHeap
     = Return (Inl (UnresolvableFragment ''/components/schemas/X'')) zeroHeap"
  using
    resolveComponent_locates [where ref = "''#/components/schemas/Pet''" and L = NewSwaggerLoader
      and E = noFiles and load = "LoadSwaggerFromURI 1 NewSwaggerLoader noFiles" and swagger = zeroSwagger
      and prefix = "''#/components/schemas/''" and s = zeroHeap]
    resolveComponent_locates [where ref = "''#/components/schemas/a/b''" and L = NewSwaggerLoader
      and E = noFiles and load = "LoadSwaggerFromURI 1 NewSwaggerLoader noFiles" and swagger = zeroSwagger
      and prefix = "''#/components/schemas/''" and s = zeroHeap]
    resolveComponent_locates [where ref = "''#/components/schemas/Pet''" and L = NewSwaggerLoader
      and E = noFiles and load = "LoadSwaggerFromURI 1 NewSwaggerLoader noFiles" and swagger = zeroSwagger
      and prefix = "''#/components/parameters/''" and s = zeroHeap]
    resolveComponent_locates [where ref = "''other.json#/components/schemas/X''" and L = externalLoader
      and E = otherFile and load = "LoadSwaggerFromURI 1 externalLoader otherFile" and swagger = selfParameter
      and prefix = "''#/components/schemas/''" and s = zeroHeap and s' = zeroHeap and doc = zeroSwagger
      and u = otherJson]
  by (simp add: locate_def HasPrefix_def concrete_defs)

text \<open>
  C8. For every reference string that does not start with \<open>#\<close>: when external references
  are not enabled, the locator fails with DisallowedExternalRef in the state it was
  called in, whatever the document loader \<open>load\<close> is (so the loader is not invoked: the
  result is the same for a loader that panics). When they are enabled, the string is
  parsed as a URI (a string that does not parse is a MalformedRefURI); the loader is
  called on the parsed URI with its fragment removed; a loader error is returned as
  LoaderError, and otherwise the locator continues with the loaded document and the
  fragment.
\<close>

theorem resolveComponent_external:
  "\<not> HasPrefix ref ''#'' \<Longrightarrow>
   (\<not> IsExternalRefsAllowed L \<longrightarrow>
      resolveComponent L E load swagger ref prefix s = Return (Inl (DisallowedExternalRef ref)) s) \<and>
   (IsExternalRefsAllowed L \<and> url_Parse E ref = None \<longrightarrow>
      resolveComponent L E load swagger ref prefix s = Return (Inl (MalformedRefURI ref)) s) \<and>
   (IsExternalRefsAllowed L \<and> url_Parse E ref = Some u \<and>
    load (u\<lparr>Fragment := ''''\<rparr>) s = Return (loaded, Some err) s' \<longrightarrow>
      resolveComponent L E load swagger ref prefix s = Return (Inl (LoaderError ref err)) s') \<and>
   (IsExternalRefsAllowed L \<and> url_Parse E ref = Some u \<and>
    load (u\<lparr>Fragment := ''''\<rparr>) s = Return (Some doc, None) s' \<longrightarrow>
      resolveComponent L E load swagger ref prefix s = locate doc (Fragment u) prefix s')"
  by (simp add: resolveComponent_def locate_def failedToResolveRefFragment_def
      failedToResolveRefFragmentPart_def)

theorem resolveComponent_external_witness:
  "\<not> HasPrefix ''other.json#/components/schemas/X'' ''#'' \<and>
   \<not> IsExternalRefsAllowed NewSwaggerLoader \<and>
   resolveComponent NewSwaggerLoader otherFile (\<lambda>location s. Panic) zeroSwagger
     ''other.json#/components/schemas/X'' ''#/components/schemas/'' zeroHeap
     = Return (Inl (DisallowedExternalRef ''other.json#/components/schemas/X'')) zeroHeap \<and>
   IsExternalRefsAllowed externalLoader \<and>
   url_Parse noFiles ''other.json#/components/schemas/X'' = None \<and>
   resolveComponent externalLoader noFiles (LoadSwaggerFromURI 1 externalLoader noFiles) zeroSwagger
     ''other.json#/components/schemas/X'' ''#/components/schemas/'' zeroHeap
     = Return (Inl (MalformedRefURI ''other.json#/components/schemas/X'')) zeroHeap \<and>
   url_Parse otherFile ''other.json#/components/schemas/X'' = Some otherJson \<and>
   LoadSwaggerFromURI 1 (externalLoader\<lparr>LoadSwaggerFromURIFunc := None\<rparr>) otherFile
       (otherJson\<lparr>Fragment := ''''\<rparr>) zeroHeap
     = Return (None, Some (Foreign ''no such file'')) zeroHeap \<and>
   resolveComponent (externalLoader\<lparr>LoadSwaggerFromURIFunc := None\<rparr>) otherFile
       (LoadSwaggerFromURI 1 (externalLoader\<lparr>LoadSwaggerFromURIFunc := None\<rparr>) otherFile) zeroSwagger
       ''other.json#/components/schemas/X'' ''#/components/schemas/'' zeroHeap
     = Return (Inl (LoaderError ''other.json#/components/schemas/X'' (Foreign ''no such file''))) zeroHeap \<and>
   LoadSwaggerFromURI 1 externalLoader otherFile (otherJson\<lparr>Fragment := ''''\<rparr>) zeroHeap
     = Return (Some zeroSwagger, None) zeroHeap \<and>
   resolveComponent externalLoader otherFile (LoadSwaggerFromURI 1 externalLoader otherFile) selfParameter
     ''other.json#/components/schemas/X'' ''/components/schemas/'' zeroHeap
     = Return (Inr (zeroComponents, ''X'')) zeroHeap"
  using
    resolveComponent_external [where ref = "''other.json#/components/schemas/X''" and L = NewSwaggerLoader
      and E = otherFile and load = "\<lambda>location s. Panic" and swagger = zeroSwagger
      and prefix = "''#/components/schemas/''" and s = zeroHeap]
    resolveComponent_external [where ref = "''other.json#/components/schemas/X''" and L = externalLoader
      and E = noFiles and load = "LoadSwaggerFromURI 1 externalLoader noFiles" and swagger = zeroSwagger
      and prefix = "''#/components/schemas/''" and s = zeroHeap]
    resolveComponent_external [where ref = "''other.json#/components/schemas/X''"
      and L = "externalLoader\<lparr>LoadSwaggerFromURIFunc := None\<rparr>" and E = otherFile
      and load = "LoadSwaggerFromURI 1 (externalLoader\<lparr>LoadSwaggerFromURIFunc := None\<rparr>) otherFile"
      and swagger = zeroSwagger and prefix = "''#/components/schemas/''" and s = zeroHeap
      and s' = zeroHeap and u = otherJson and loaded = None and err = "Foreign ''no such file''"]
    resolveComponent_external [where ref = "''other.json#/components/schemas/X''" and L = externalLoader
      and E = otherFile and load = "LoadSwaggerFromURI 1 externalLoader otherFile" and swagger = selfParameter
      and prefix = "''/components/schemas/''" and s = zeroHeap and s' = zeroHeap and doc = zeroSwagger
      and u = otherJson]
  by (simp add: locate_def HasPrefix_def concrete_defs)

text \<open>
  A remark on external references. The fragment \<^verbatim>\<open>url.Parse\<close> returns is the text after the
  \<open>#\<close>, and every prefix the resolvers pass starts with \<open>#\<close>. The locator compares the two
  as they are: when the fragment does not itself start with \<open>#\<close>, an external reference
  that has been loaded fails with UnresolvableFragment.
\<close>

lemma external_fragment_mismatch:
  assumes "\<not> HasPrefix ref ''#''" and "IsExternalRefsAllowed L" and "url_Parse E ref = Some u"
    and "load (u\<lparr>Fragment := ''''\<rparr>) s = Return (Some doc, None) s'"
    and "\<not> HasPrefix (Fragment u) ''#''" and "HasPrefix prefix ''#''"
  shows "resolveComponent L E load swagger ref prefix s = Return (Inl (UnresolvableFragment (Fragment u))) s'"
proof -
  have "\<not> HasPrefix (Fragment u) prefix"
    using assms(5,6) by (cases prefix; cases "Fragment u") (auto simp: HasPrefix_def)
  then show ?thesis
    using assms(1-4) by (simp add: resolveComponent_def failedToResolveRefFragment_def)
qed

section \<open>Single resolver calls: claims C3, C4, C6 and C9\<close>

text \<open>
  The six resolvers that keep a record return at once, in the state they were called in,
  on a reference that is recorded in \<^verbatim>\<open>visited\<close>.
\<close>

lemma visited_returns_at_once:
  "(HeaderRefT, component) \<in> visited s \<Longrightarrow>
     resolveHeaderRef (Suc n) L E load swagger component s = Return None s"
  "(ParameterRefT, component) \<in> visited s \<Longrightarrow>
     resolveParameterRef (Suc n) L E load swagger component s = Return None s"
  "(RequestBodyRefT, component) \<in> visited s \<Longrightarrow>
     resolveRequestBodyRef (Suc n) L E load swagger component s = Return None s"
  "(ResponseRefT, component) \<in> visited s \<Longrightarrow>
     resolveResponseRef (Suc n) L E load swagger component s = Return None s"
  "(SchemaRefT, component) \<in> visited s \<Longrightarrow>
     resolveSchemaRef (Suc n) L E load swagger component s = Return None s"
  "(SecuritySchemeRefT, component) \<in> visited s \<Longrightarrow>
     resolveSecuritySchemeRef (Suc n) L E load swagger component s = Return None s"
  by simp_all

text \<open>
  C3 fails on the resolver of examples, which has no guard: on the example E of
  \<open>twoExamples\<close>, whose reference string names E itself, \<^verbatim>\<open>resolveExampleRef\<close> calls itself
  on E again and again; no amount of fuel lets it return.
\<close>

theorem resolveExampleRef_self_reference_diverges:
  "resolveExampleRef n NewSwaggerLoader E load twoExamples (Some 0) twoExamplesHeap = Diverged"
  by (induction n) (simp_all add: run_defs concrete_defs)

text \<open>
  C4 fails: on a schema reference that is not yet visited, has no reference string and no
  value, \<^verbatim>\<open>resolveSchemaRef\<close> reads \<^verbatim>\<open>value.Items\<close> through the nil pointer and panics.
\<close>

theorem resolveSchemaRef_null_Value_panics:
  "(SchemaRefT, Some c) \<notin> visited s \<Longrightarrow> Ref (schemaRefs s c) = '''' \<Longrightarrow>
   Value (schemaRefs s c) = None \<Longrightarrow>
   resolveSchemaRef (Suc n) L E load swagger (Some c) s = Panic"
  by (simp add: andThen_def)

theorem resolveSchemaRef_null_Value_panics_witness:
  "(SchemaRefT, Some 0) \<notin> visited zeroHeap \<and> Ref (schemaRefs zeroHeap 0) = '''' \<and>
   Value (schemaRefs zeroHeap 0) = None \<and>
   resolveSchemaRef (Suc 0) NewSwaggerLoader noFiles (LoadSwaggerFromURI 1 NewSwaggerLoader noFiles)
     emptySchemaRef (Some 0) zeroHeap = Panic"
  using resolveSchemaRef_null_Value_panics [where c = 0 and s = zeroHeap and n = 0 and L = NewSwaggerLoader
    and E = noFiles and load = "LoadSwaggerFromURI 1 NewSwaggerLoader noFiles" and swagger = emptySchemaRef]
  by (simp add: zeroHeap_def zeroRef_def)

text \<open>The four resolvers that test \<^verbatim>\<open>value == nil\<close> return nil on such a reference.\<close>

lemma null_Value_elsewhere:
  "(HeaderRefT, Some c) \<notin> visited s \<Longrightarrow> Ref (headerRefs s c) = '''' \<Longrightarrow>
   Value (headerRefs s c) = None \<Longrightarrow>
     resolveHeaderRef (Suc n) L E load swagger (Some c) s
       = Return None (s\<lparr>visited := insert ((HeaderRefT, Some c)) (visited s)\<rparr>)"
  "(ParameterRefT, Some c) \<notin> visited s \<Longrightarrow> Ref (parameterRefs s c) = '''' \<Longrightarrow>
   Value (parameterRefs s c) = None \<Longrightarrow>
     resolveParameterRef (Suc n) L E load swagger (Some c) s
       = Return None (s\<lparr>visited := insert ((ParameterRefT, Some c)) (visited s)\<rparr>)"
  "(RequestBodyRefT, Some c) \<notin> visited s \<Longrightarrow> Ref (requestBodyRefs s c) = '''' \<Longrightarrow>
   Value (requestBodyRefs s c) = None \<Longrightarrow>
     resolveRequestBodyRef (Suc n) L E load swagger (Some c) s
       = Return None (s\<lparr>visited := insert ((RequestBodyRefT, Some c)) (visited s)\<rparr>)"
  "(ResponseRefT, Some c) \<notin> visited s \<Longrightarrow> Ref (responseRefs s c) = '''' \<Longrightarrow>
   Value (responseRefs s c) = None \<Longrightarrow>
     resolveResponseRef (Suc n) L E load swagger (Some c) s
       = Return None (s\<lparr>visited := insert ((ResponseRefT, Some c)) (visited s)\<rparr>)"
  by (simp_all add: andThen_def)

text \<open>
  C6 fails on the resolver of headers: for a reference string \<^verbatim>\<open>#/components/headers/<id>\<close>
  that passes the locator, a document without a table of headers, and a table without
  the identifier, both make \<^verbatim>\<open>resolveHeaderRef\<close> fail with UnresolvableFragment (built by
  \<^verbatim>\<open>failedToResolveRefFragment\<close>), not with UnresolvableFragmentPart.
\<close>

theorem resolveHeaderRef_missing_target:
  "(HeaderRefT, Some c) \<notin> visited s \<Longrightarrow> Ref (headerRefs s c) = ''#/components/headers/'' @ ident \<Longrightarrow>
   CHR ''/'' \<notin> set ident \<Longrightarrow>
   (Headers (Components swagger) = None \<longrightarrow>
      resolveHeaderRef (Suc n) L E load swagger (Some c) s
        = Return (Some (UnresolvableFragment (Ref (headerRefs s c))))
            (s\<lparr>visited := insert ((HeaderRefT, Some c)) (visited s)\<rparr>)) \<and>
   (Headers (Components swagger) = Some definitions \<and> lookup definitions ident = None \<longrightarrow>
      resolveHeaderRef (Suc n) L E load swagger (Some c) s
        = Return (Some (UnresolvableFragment (Ref (headerRefs s c))))
            (s\<lparr>visited := insert ((HeaderRefT, Some c)) (visited s)\<rparr>))"
  by (simp add: resolveComponent_def andThen_def HasPrefix_def failedToResolveRefFragment_def)

theorem resolveHeaderRef_missing_target_witness:
  "(HeaderRefT, Some 0) \<notin> visited danglingHeaderHeap \<and>
   Ref (headerRefs danglingHeaderHeap 0) = ''#/components/headers/'' @ ''H'' \<and>
   CHR ''/'' \<notin> set ''H'' \<and>
   Headers (Components zeroSwagger) = None \<and>
   resolveHeaderRef (Suc 0) NewSwaggerLoader noFiles (LoadSwaggerFromURI 1 NewSwaggerLoader noFiles)
       zeroSwagger (Some 0) danglingHeaderHeap
     = Return (Some (UnresolvableFragment ''#/components/headers/H''))
         (danglingHeaderHeap\<lparr>visited := {(HeaderRefT, Some 0)}\<rparr>) \<and>
   Headers (Components (zeroSwagger\<lparr>Components := zeroComponents\<lparr>Headers := Some [(''G'', Some 1)]\<rparr>\<rparr>))
     = Some [(''G'', Some 1)] \<and>
   lookup [(''G'', Some 1)] ''H'' = None \<and>
   resolveHeaderRef (Suc 0) NewSwaggerLoader noFiles (LoadSwaggerFromURI 1 NewSwaggerLoader noFiles)
       (zeroSwagger\<lparr>Components := zeroComponents\<lparr>Headers := Some [(''G'', Some 1)]\<rparr>\<rparr>)
       (Some 0) danglingHeaderHeap
     = Return (Some (UnresolvableFragment ''#/components/headers/H''))
         (danglingHeaderHeap\<lparr>visited := {(HeaderRefT, Some 0)}\<rparr>)"
  using
    resolveHeaderRef_missing_target [where c = 0 and s = danglingHeaderHeap and ident = "''H''"
      and swagger = zeroSwagger and n = 0 and L = NewSwaggerLoader and E = noFiles
      and load = "LoadSwaggerFromURI 1 NewSwaggerLoader noFiles"]
    resolveHeaderRef_missing_target [where c = 0 and s = danglingHeaderHeap and ident = "''H''"
      and swagger = "zeroSwagger\<lparr>Components := zeroComponents\<lparr>Headers := Some [(''G'', Some 1)]\<rparr>\<rparr>"
      and definitions = "[(''G'', Some 1)]" and n = 0 and L = NewSwaggerLoader and E = noFiles
      and load = "LoadSwaggerFromURI 1 NewSwaggerLoader noFiles"]
  by (simp add: concrete_defs lookup_def)

text \<open>The resolver of parameters, like the other four, fails with UnresolvableFragmentPart there.\<close>

lemma resolveParameterRef_missing_target:
  "(ParameterRefT, Some c) \<notin> visited s \<Longrightarrow>
   Ref (parameterRefs s c) = ''#/components/parameters/'' @ ident \<Longrightarrow>
   CHR ''/'' \<notin> set ident \<Longrightarrow>
   (Components.Parameters (Components swagger) = None \<longrightarrow>
      resolveParameterRef (Suc n) L E load swagger (Some c) s
        = Return (Some (UnresolvableFragmentPart (Ref (parameterRefs s c)) ''parameters''))
            (s\<lparr>visited := insert ((ParameterRefT, Some c)) (visited s)\<rparr>)) \<and>
   (Components.Parameters (Components swagger) = Some definitions \<and> lookup definitions ident = None \<longrightarrow>
      resolveParameterRef (Suc n) L E load swagger (Some c) s
        = Return (Some (UnresolvableFragmentPart (Ref (parameterRefs s c)) ident))
            (s\<lparr>visited := insert ((ParameterRefT, Some c)) (visited s)\<rparr>))"
  by (simp add: resolveComponent_def andThen_def HasPrefix_def failedToResolveRefFragmentPart_def)

text \<open>
  C9 fails on the resolver of examples: its prefix is \<^verbatim>\<open>#/components/examples\<close>, without the
  final slash, so for every reference string \<^verbatim>\<open>#/components/examples/<id>\<close> the identifier
  it cuts off is \<^verbatim>\<open>/<id>\<close>, and the locator fails with UnresolvableFragmentPart whatever
  the table of examples holds.
\<close>

theorem resolveExampleRef_rejects_grammar:
  "Ref (exampleRefs s c) = ''#/components/examples/'' @ ident \<Longrightarrow>
   resolveExampleRef (Suc n) L E load swagger (Some c) s
     = Return (Some (UnresolvableFragmentPart (Ref (exampleRefs s c)) (CHR ''/'' # ident))) s"
  by (simp add: resolveComponent_def andThen_def HasPrefix_def failedToResolveRefFragmentPart_def)

theorem resolveExampleRef_rejects_grammar_witness:
  "Ref (exampleRefs twoExamplesHeap 1) = ''#/components/examples/'' @ ''E'' \<and>
   Examples (Components twoExamples) = Some [(''E'', Some 0), (''F'', Some 1)] \<and>
   resolveExampleRef (Suc 0) NewSwaggerLoader noFiles (LoadSwaggerFromURI 1 NewSwaggerLoader noFiles)
       twoExamples (Some 1) twoExamplesHeap
     = Return (Some (UnresolvableFragmentPart ''#/components/examples/E'' ''/E'')) twoExamplesHeap"
  using resolveExampleRef_rejects_grammar [where s = twoExamplesHeap and c = 1 and ident = "''E''"
    and n = 0 and L = NewSwaggerLoader and E = noFiles
    and load = "LoadSwaggerFromURI 1 NewSwaggerLoader noFiles" and swagger = twoExamples]
  by (simp add: concrete_defs)

section \<open>Whole passes on small documents: claims C1, C2, C5 and C10\<close>


text \<open>The same with any larger fuel.\<close>

lemma selfParameter_any_fuel:
  "ResolveRefsIn (Suc (Suc n)) NewSwaggerLoader noFiles selfParameter selfParameterHeap
     = Return None (selfParameterHeap\<lparr>visited := {(ParameterRefT, Some 0)}\<rparr>)"
  by (simp add: run_defs concrete_defs)

text \<open>
  C2 fails on the cycle: with A referring to B, B to C and C back to A, resolving A does
  not loop, but it does not return nil either. When C is itself a reference to A, the
  innermost call copies the value of A, still nil, into C and panics on \<^verbatim>\<open>value.Items\<close>;
  when C holds a value whose items refer to A, the same happens to the reference in the
  items. This is the missing nil test of C4.
\<close>

theorem resolveSchemaRef_cycle_panics:
  "resolveSchemaRef (Suc (Suc (Suc (Suc n)))) NewSwaggerLoader E load cycleABC (Some 0) cycleABCHeap = Panic \<and>
   resolveSchemaRef (Suc (Suc (Suc (Suc (Suc n))))) NewSwaggerLoader E load cycleABC (Some 0) cycleItemsHeap = Panic"
  by (simp add: run_defs concrete_defs)

text \<open>
  C5 fails on the table of examples, which the walk never reads: on a document with
  nothing but examples, \<^verbatim>\<open>ResolveRefsIn\<close> returns nil and leaves every heap object as it
  was, whatever the examples refer to.
\<close>

theorem ResolveRefsIn_skips_Examples:
  "Components swagger = zeroComponents\<lparr>Examples := examples\<rparr> \<Longrightarrow> Paths swagger = None \<Longrightarrow>
   ResolveRefsIn n L E swagger s = Return None (s\<lparr>visited := {}\<rparr>)"
  by (simp add: run_defs zeroComponents_def)

theorem ResolveRefsIn_skips_Examples_witness:
  "Components twoExamples = zeroComponents\<lparr>Examples := Some [(''E'', Some 0), (''F'', Some 1)]\<rparr> \<and>
   Paths twoExamples = None \<and>
   ResolveRefsIn 5 NewSwaggerLoader noFiles twoExamples twoExamplesHeap = Return None twoExamplesHeap \<and>
   exampleRefs twoExamplesHeap 1 = \<lparr>Ref = ''#/components/examples/E'', Value = None\<rparr>"
  using ResolveRefsIn_skips_Examples [where swagger = twoExamples and n = 5 and L = NewSwaggerLoader
    and E = noFiles and s = twoExamplesHeap and examples = "Some [(''E'', Some 0), (''F'', Some 1)]"]
  by (simp add: concrete_defs)

text \<open>
  C10 fails on a document without any reference string: with one schema A that has
  neither a reference string nor a value, \<^verbatim>\<open>ResolveRefsIn\<close> panics (the missing nil test of
  C4 again).
\<close>

theorem ResolveRefsIn_emptySchemaRef_panics:
  "ResolveRefsIn (Suc n) L E emptySchemaRef zeroHeap = Panic"
  by (simp add: run_defs concrete_defs)

section \<open>Fuel\<close>

lemma finished_refl: "finished r r"
  by (simp add: finished_def)

lemma finished_Diverged: "finished Diverged r"
  by (simp add: finished_def)

lemma finished_trans: "finished r r' \<Longrightarrow> finished r' r'' \<Longrightarrow> finished r r''"
  by (auto simp: finished_def)

lemma finished_andThen:
  "finished r r' \<Longrightarrow> (\<And>s. finished (k s) (k' s)) \<Longrightarrow> finished (andThen r k) (andThen r' k')"
  by (auto simp: finished_def andThen_def split: result.splits option.splits)

lemma finished_forEach:
  "(\<And>x s. finished (f x s) (g x s)) \<Longrightarrow> finished (forEach f xs s) (forEach g xs s)"
  by (induction xs arbitrary: s) (simp_all add: finished_refl finished_andThen)

lemma finished_option:
  "(x = None \<Longrightarrow> finished a a') \<Longrightarrow> (\<And>y. x = Some y \<Longrightarrow> finished (b y) (b' y)) \<Longrightarrow>
   finished (case x of None \<Rightarrow> a | Some y \<Rightarrow> b y) (case x of None \<Rightarrow> a' | Some y \<Rightarrow> b' y)"
  by (cases x) simp_all

lemma finished_if:
  "(c \<Longrightarrow> finished a a') \<Longrightarrow> (\<not> c \<Longrightarrow> finished b b') \<Longrightarrow>
   finished (if c then a else b) (if c then a' else b')"
  by simp

lemma finished_resolveComponent:
  "(\<And>u s. finished (load u s) (load' u s)) \<Longrightarrow>
   finished (resolveComponent L E load swagger ref prefix s) (resolveComponent L E load' swagger ref prefix s)"
proof -
  assume l: "\<And>u s. finished (load u s) (load' u s)"
  show ?thesis
  proof (cases "\<not> HasPrefix ref ''#'' \<and> IsExternalRefsAllowed L \<and> url_Parse E ref \<noteq> None")
    case True
    then obtain u where u: "url_Parse E ref = Some u"
      by auto
    show ?thesis
      using True u l [of "u\<lparr>Fragment := ''''\<rparr>" s]
      by (auto simp: resolveComponent_def finished_def split: result.splits option.splits)
  next
    case False
    then have "resolveComponent L E load' swagger ref prefix s = resolveComponent L E load swagger ref prefix s"
      by (auto simp: resolveComponent_def)
    then show ?thesis
      by (simp add: finished_refl)
  qed
qed

text \<open>The block of a resolver that resolves the reference string.\<close>

lemma finished_block:
  assumes "finished rc rc'"
    and "\<And>components ident s2. finished (k components ident s2) (k' components ident s2)"
  shows "finished
     (case rc of Return (Inl err) s2 \<Rightarrow> Return (Some err) s2
      | Return (Inr (components, ident)) s2 \<Rightarrow> k components ident s2
      | Panic \<Rightarrow> Panic | Diverged \<Rightarrow> Diverged)
     (case rc' of Return (Inl err) s2 \<Rightarrow> Return (Some err) s2
      | Return (Inr (components, ident)) s2 \<Rightarrow> k' components ident s2
      | Panic \<Rightarrow> Panic | Diverged \<Rightarrow> Diverged)"
  using assms by (cases rc) (auto simp: finished_def split: sum.splits)

text \<open>
  A resolver called with one unit of fuel more, and with a loader that finishes whenever
  the given one does, finishes whenever the given call does, with the same result.
\<close>

lemma resolveSchemaRef_finished:
  assumes l: "\<And>u s. finished (load u s) (load' u s)"
  shows "finished (resolveSchemaRef n L E load swagger p s) (resolveSchemaRef (Suc n) L E load' swagger p s)"
proof (induction n arbitrary: p s)
  case 0
  show ?case
    by (simp add: finished_def)
next
  case (Suc n)
  note IH = Suc.IH
  show ?case
    apply (subst resolveSchemaRef.simps(2))
    apply (subst resolveSchemaRef.simps(2))
    apply (simp only: Let_def)
    by (intro finished_if finished_andThen finished_option finished_forEach finished_block
        finished_resolveComponent l IH finished_refl)
qed

lemma resolveHeaderRef_finished:
  assumes l: "\<And>u s. finished (load u s) (load' u s)"
  shows "finished (resolveHeaderRef n L E load swagger p s) (resolveHeaderRef (Suc n) L E load' swagger p s)"
proof (induction n arbitrary: p s)
  case 0
  show ?case
    by (simp add: finished_def)
next
  case (Suc n)
  note IH = Suc.IH
  show ?case
    apply (subst resolveHeaderRef.simps(2))
    apply (subst resolveHeaderRef.simps(2))
    apply (simp only: Let_def)
    by (intro finished_if finished_andThen finished_option finished_forEach finished_block
        finished_resolveComponent resolveSchemaRef_finished l IH finished_refl)
qed

lemma resolveParameterRef_finished:
  assumes l: "\<And>u s. finished (load u s) (load' u s)"
  shows "finished (resolveParameterRef n L E load swagger p s) (resolveParameterRef (Suc n) L E load' swagger p s)"
proof (induction n arbitrary: p s)
  case 0
  show ?case
    by (simp add: finished_def)
next
  case (Suc n)
  note IH = Suc.IH
  show ?case
    apply (subst resolveParameterRef.simps(2))
    apply (subst resolveParameterRef.simps(2))
    apply (simp only: Let_def)
    by (intro finished_if finished_andThen finished_option finished_forEach finished_block
        finished_resolveComponent resolveSchemaRef_finished l IH finished_refl)
qed

lemma resolveRequestBodyRef_finished:
  assumes l: "\<And>u s. finished (load u s) (load' u s)"
  shows "finished (resolveRequestBodyRef n L E load swagger p s) (resolveRequestBodyRef (Suc n) L E load' swagger p s)"
proof (induction n arbitrary: p s)
  case 0
  show ?case
    by (simp add: finished_def)
next
  case (Suc n)
  note IH = Suc.IH
  show ?case
    apply (subst resolveRequestBodyRef.simps(2))
    apply (subst resolveRequestBodyRef.simps(2))
    apply (simp only: Let_def)
    by (intro finished_if finished_andThen finished_option finished_forEach finished_block
        finished_resolveComponent resolveSchemaRef_finished l IH finished_refl)
qed

lemma resolveResponseRef_finished:
  assumes l: "\<And>u s. finished (load u s) (load' u s)"
  shows "finished (resolveResponseRef n L E load swagger p s) (resolveResponseRef (Suc n) L E load' swagger p s)"
proof (induction n arbitrary: p s)
  case 0
  show ?case
    by (simp add: finished_def)
next
  case (Suc n)
  note IH = Suc.IH
  show ?case
    apply (subst resolveResponseRef.simps(2))
    apply (subst resolveResponseRef.simps(2))
    apply (simp only: Let_def)
    by (intro finished_if finished_andThen finished_option finished_forEach finished_block
        finished_resolveComponent resolveSchemaRef_finished l IH finished_refl)
qed

lemma resolveSecuritySchemeRef_finished:
  assumes l: "\<And>u s. finished (load u s) (load' u s)"
  shows "finished (resolveSecuritySchemeRef n L E load swagger p s) (resolveSecuritySchemeRef (Suc n) L E load' swagger p s)"
proof (induction n arbitrary: p s)
  case 0
  show ?case
    by (simp add: finished_def)
next
  case (Suc n)
  note IH = Suc.IH
  show ?case
    apply (subst resolveSecuritySchemeRef.simps(2))
    apply (subst resolveSecuritySchemeRef.simps(2))
    apply (simp only: Let_def)
    by (intro finished_if finished_andThen finished_option finished_forEach finished_block
        finished_resolveComponent resolveSchemaRef_finished l IH finished_refl)
qed

lemma resolveExampleRef_finished:
  assumes l: "\<And>u s. finished (load u s) (load' u s)"
  shows "finished (resolveExampleRef n L E load swagger p s) (resolveExampleRef (Suc n) L E load' swagger p s)"
proof (induction n arbitrary: p s)
  case 0
  show ?case
    by (simp add: finished_def)
next
  case (Suc n)
  note IH = Suc.IH
  show ?case
    apply (subst resolveExampleRef.simps(2))
    apply (subst resolveExampleRef.simps(2))
    apply (simp only: Let_def)
    by (intro finished_if finished_andThen finished_option finished_forEach finished_block
        finished_resolveComponent resolveSchemaRef_finished l IH finished_refl)
qed

lemma resolveRefsWith_finished:
  assumes l: "\<And>u s. finished (load u s) (load' u s)"
  shows "finished (resolveRefsWith load n L E swagger s) (resolveRefsWith load' (Suc n) L E swagger s)"
  unfolding resolveRefsWith_def
  by (intro finished_if finished_andThen finished_option finished_forEach
      resolveHeaderRef_finished resolveParameterRef_finished resolveRequestBodyRef_finished
      resolveResponseRef_finished resolveSchemaRef_finished resolveSecuritySchemeRef_finished l finished_refl)

lemma loadDataWith_finished:
  assumes l: "\<And>u s. finished (load u s) (load' u s)"
  shows "finished (loadDataWith load n L E data s) (loadDataWith load' (Suc n) L E data s)"
proof (cases "json_Unmarshal E data s")
  case (Pair r s')
  show ?thesis
  proof (cases r)
    case (Inl err)
    then show ?thesis
      using Pair by (simp add: loadDataWith_def finished_refl)
  next
    case (Inr swagger)
    then show ?thesis
      using Pair resolveRefsWith_finished [OF l, where n = n and L = L and E = E and swagger = swagger and s = s']
      by (auto simp: loadDataWith_def finished_def split: result.splits)
  qed
qed

lemma finished_sum:
  "(\<And>y. x = Inl y \<Longrightarrow> finished (a y) (a' y)) \<Longrightarrow> (\<And>y. x = Inr y \<Longrightarrow> finished (b y) (b' y)) \<Longrightarrow>
   finished (case x of Inl y \<Rightarrow> a y | Inr y \<Rightarrow> b y) (case x of Inl y \<Rightarrow> a' y | Inr y \<Rightarrow> b' y)"
  by (cases x) simp_all

lemma LoadSwaggerFromURI_finished:
  "finished (LoadSwaggerFromURI n L E location s) (LoadSwaggerFromURI (Suc n) L E location s)"
proof (induction n arbitrary: location s)
  case 0
  show ?case
    by (simp add: finished_def)
next
  case (Suc n)
  have 1: "LoadSwaggerFromURI (Suc k) L E location s =
     (case LoadSwaggerFromURIFunc L of
        Some f \<Rightarrow> f location s
      | None \<Rightarrow>
         if Scheme location \<noteq> [] \<or> Host location \<noteq> [] \<or> RawQuery location \<noteq> []
         then Return (None, Some (UnsupportedURI location)) s
         else
           (case ioutil_ReadFile E (Path location) of
              Inl err \<Rightarrow> Return (None, Some err) s
            | Inr data \<Rightarrow> loadDataWith (LoadSwaggerFromURI k L E) k L E data s))" for k
    by (subst LoadSwaggerFromURI.simps(2)) (rule refl)
  show ?case
    unfolding 1 [of n] 1 [of "Suc n"]
    by (intro finished_option finished_if finished_sum loadDataWith_finished Suc.IH finished_refl)
qed

lemma ResolveRefsIn_finished:
  "finished (ResolveRefsIn n L E swagger s) (ResolveRefsIn (Suc n) L E swagger s)"
  unfolding ResolveRefsIn_def by (rule resolveRefsWith_finished) (rule LoadSwaggerFromURI_finished)

text \<open>
  So a pass that returns or panics with some fuel does the same with any larger fuel: the
  fuel decides only whether the model has run long enough to see the result.
\<close>

lemma ResolveRefsIn_more_fuel:
  "n \<le> m \<Longrightarrow> ResolveRefsIn n L E swagger s \<noteq> Diverged \<Longrightarrow>
   ResolveRefsIn m L E swagger s = ResolveRefsIn n L E swagger s"
proof (induction m)
  case 0
  then show ?case
    by simp
next
  case (Suc m)
  show ?case
  proof (cases "n = Suc m")
    case True
    then show ?thesis
      by simp
  next
    case False
    then have "ResolveRefsIn m L E swagger s = ResolveRefsIn n L E swagger s"
      using Suc by simp
    then show ?thesis
      using ResolveRefsIn_finished [of m L E swagger s] Suc.prems(2) by (simp add: finished_def)
  qed
qed

section \<open>The flattening invariant\<close>

subsection \<open>The assertions compose\<close>

lemma keeps_refl: "keeps s s"
  by (simp add: keeps_def)

lemma keeps_visited: "keeps s s' \<Longrightarrow> k \<in> visited s \<Longrightarrow> k \<in> visited s'"
  by (auto simp: keeps_def)

lemma keeps_same:
  "keeps s s' \<Longrightarrow> (T, Some c) \<in> visited s \<or> (T, Some c) \<notin> visited s' \<or> Value (refs s T c) \<noteq> None \<or> Ref (refs s T c) = []
   \<Longrightarrow> refs s' T c = refs s T c"
  unfolding keeps_def by blast

lemma keeps_Ref: "keeps s s' \<Longrightarrow> Ref (refs s' T c) = Ref (refs s T c)"
  unfolding keeps_def by blast

lemma keeps_trans:
  assumes "keeps s s'" and "keeps s' s''"
  shows "keeps s s''"
proof -
  have v: "visited s \<subseteq> visited s'" "visited s' \<subseteq> visited s''"
    using assms by (auto simp: keeps_def)
  have "refs s'' T c = refs s T c"
    if "(T, Some c) \<in> visited s \<or> (T, Some c) \<notin> visited s'' \<or> Value (refs s T c) \<noteq> None \<or> Ref (refs s T c) = []"
    for T c
  proof -
    have 1: "refs s' T c = refs s T c"
      using that v keeps_same [OF assms(1), of T c] by blast
    have "(T, Some c) \<in> visited s' \<or> (T, Some c) \<notin> visited s'' \<or> Value (refs s' T c) \<noteq> None \<or> Ref (refs s' T c) = []"
      using that v 1 by auto
    then show ?thesis
      using keeps_same [OF assms(2), of T c] 1 by simp
  qed
  moreover have "Ref (refs s'' T c) = Ref (refs s T c)" for T c
    using keeps_Ref [OF assms(1)] keeps_Ref [OF assms(2)] by simp
  ultimately show ?thesis
    using assms v unfolding keeps_def by (intro conjI allI impI) auto
qed

lemma pending_keeps:
  assumes "pending s" and "keeps s s'"
  shows "pending s'"
  unfolding pending_def
proof (intro allI impI)
  fix T c
  assume a: "(T, Some c) \<notin> visited s'" and r: "Ref (refs s' T c) \<noteq> []"
  have "refs s' T c = refs s T c"
    using keeps_same [OF assms(2), of T c] a by blast
  moreover have "(T, Some c) \<notin> visited s"
    using a keeps_visited [OF assms(2)] by blast
  ultimately show "Value (refs s' T c) = None"
    using assms(1) r unfolding pending_def by auto
qed

lemma nested_keeps: "keeps s s' \<Longrightarrow> nested s' T v = nested s T v"
  by (cases T) (simp_all add: keeps_def nested_def)

lemma settled_keeps:
  assumes "settled swagger s k" and "k \<in> visited s" and "keeps s s'"
  shows "settled swagger s' k"
proof -
  obtain T c where k: "k = (T, Some c)" and l: "linked swagger s T c" and d: "descended s T c"
    using assms(1) by (cases k) (auto simp: settled_def split: option.splits)
  have same: "refs s' T c = refs s T c"
    using keeps_same [OF assms(3), of T c] assms(2) k by blast
  have "linked swagger s' T c"
    unfolding linked_def
  proof (intro impI)
    assume "Ref (refs s' T c) \<noteq> []"
    then obtain t where t: "target swagger T (Ref (refs s T c)) = Some t" "(T, Some t) \<in> visited s"
        "Value (refs s T c) \<noteq> None \<longrightarrow> Value (refs s T t) = Value (refs s T c)"
      using l same unfolding linked_def by auto
    have "refs s' T t = refs s T t"
      using keeps_same [OF assms(3), of T t] t(2) by blast
    then show "\<exists>t. target swagger T (Ref (refs s' T c)) = Some t \<and> (T, Some t) \<in> visited s' \<and>
             (Value (refs s' T c) \<noteq> None \<longrightarrow> Value (refs s' T t) = Value (refs s' T c))"
      using t same keeps_visited [OF assms(3)] by auto
  qed
  moreover have "descended s' T c"
    using d same nested_keeps [OF assms(3)] keeps_visited [OF assms(3)]
    unfolding descended_def by auto
  ultimately show ?thesis
    by (simp add: settled_def k)
qed

lemma advances_refl: "advances swagger s s"
  by (simp add: advances_def keeps_refl)

lemma advances_trans:
  assumes "advances swagger s s'" and "advances swagger s' s''"
  shows "advances swagger s s''"
  using assms keeps_trans settled_keeps unfolding advances_def by blast

lemma advances_keeps: "advances swagger s s' \<Longrightarrow> keeps s s'"
  by (simp add: advances_def)

subsection \<open>Sequencing, loops and assignments\<close>

lemma andThen_Return_None:
  "andThen r k = Return None s' \<longleftrightarrow> (\<exists>t. r = Return None t \<and> k t = Return None s')"
  by (auto simp: andThen_def split: result.splits option.splits)

lemma setValue_simps [simp]:
  "visited (setValue T c v s) = visited s"
  "headers (setValue T c v s) = headers s"
  "parameters (setValue T c v s) = parameters s"
  "requestBodies (setValue T c v s) = requestBodies s"
  "responses (setValue T c v s) = responses s"
  "contentTypes (setValue T c v s) = contentTypes s"
  "schemas (setValue T c v s) = schemas s"
  "refs (setValue T c v s) T' c' = (if T' = T \<and> c' = c then (refs s T c)\<lparr>Value := v\<rparr> else refs s T' c')"
  by (simp_all add: setValue_def)

lemma nested_setValue [simp]: "nested (setValue T c v s) T' w = nested s T' w"
  by (cases T') (simp_all add: nested_def)

subsection \<open>The block that resolves the reference string\<close>

lemma keeps_insert: "keeps s (s\<lparr>visited := insert k (visited s)\<rparr>)"
  by (auto simp: keeps_def)

lemma settled_setValue:
  assumes "settled swagger s k" and "k \<noteq> (T, Some c)" and "Value (refs s T c) = None"
  shows "settled swagger (setValue T c w s) k"
proof -
  obtain T' c' where k: "k = (T', Some c')" and l: "linked swagger s T' c'" and d: "descended s T' c'"
    using assms(1) by (cases k) (auto simp: settled_def split: option.splits)
  have ne: "\<not> (T' = T \<and> c' = c)"
    using assms(2) k by auto
  have "linked swagger (setValue T c w s) T' c'"
    unfolding linked_def
  proof (intro impI)
    assume "Ref (refs (setValue T c w s) T' c') \<noteq> []"
    then obtain t where t: "target swagger T' (Ref (refs s T' c')) = Some t" "(T', Some t) \<in> visited s"
        "Value (refs s T' c') \<noteq> None \<longrightarrow> Value (refs s T' t) = Value (refs s T' c')"
      using l ne unfolding linked_def by auto
    have "\<not> (T' = T \<and> t = c)" if "Value (refs s T' c') \<noteq> None"
      using t(3) that assms(3) by auto
    then show "\<exists>t. target swagger T' (Ref (refs (setValue T c w s) T' c')) = Some t \<and>
         (T', Some t) \<in> visited (setValue T c w s) \<and>
         (Value (refs (setValue T c w s) T' c') \<noteq> None \<longrightarrow>
            Value (refs (setValue T c w s) T' t) = Value (refs (setValue T c w s) T' c'))"
      using t ne by auto
  qed
  moreover have "descended (setValue T c w s) T' c'"
    using d ne unfolding descended_def by auto
  ultimately show ?thesis
    by (simp add: settled_def k)
qed

lemma flattens_flattened:
  assumes f: "flattens resolve swagger T c s s4" and p: "pending s" and nv: "(T, Some c) \<notin> visited s"
    and IH: "\<And>q t t'. pending t \<Longrightarrow> resolve q t = Return None t' \<Longrightarrow> advances swagger t t' \<and> (T, q) \<in> visited t'"
  shows "flattened swagger T c s s4"
proof (cases "Ref (refs s T c) = []")
  case True
  then have s4: "s4 = s\<lparr>visited := insert (T, Some c) (visited s)\<rparr>"
    using f by (simp add: flattens_def)
  show ?thesis
    unfolding flattened_def s4 using keeps_insert True by (auto simp: linked_def)
next
  case False
  define s1 where "s1 = s\<lparr>visited := insert (T, Some c) (visited s)\<rparr>"
  obtain t s3 where t: "target swagger T (Ref (refs s T c)) = Some t"
    and r: "resolve (Some t) s1 = Return None s3"
    and s4: "s4 = setValue T c (Value (refs s3 T t)) s3"
    using f False unfolding flattens_def s1_def by auto
  have k01: "keeps s s1"
    unfolding s1_def by (rule keeps_insert)
  have p1: "pending s1"
    using pending_keeps [OF p k01] .
  have a13: "advances swagger s1 s3" and vt: "(T, Some t) \<in> visited s3"
    using IH [OF p1 r] by auto
  have k13: "keeps s1 s3"
    using a13 by (rule advances_keeps)
  have c1: "(T, Some c) \<in> visited s1"
    by (simp add: s1_def)
  have same_c: "refs s3 T c = refs s T c"
    using keeps_same [OF k13, of T c] c1 by (simp add: s1_def)
  have none_c: "Value (refs s T c) = None"
    using p nv False unfolding pending_def by auto
  have k03: "keeps s s3"
    using keeps_trans [OF k01 k13] .
  have "keeps s s4"
    unfolding keeps_def
  proof (intro conjI allI impI)
    fix T' c'
    show "Ref (refs s4 T' c') = Ref (refs s T' c')"
      using keeps_Ref [OF k03] by (simp add: s4)
    assume a: "(T', Some c') \<in> visited s \<or> (T', Some c') \<notin> visited s4 \<or> Value (refs s T' c') \<noteq> None \<or>
          Ref (refs s T' c') = []"
    have ne: "\<not> (T' = T \<and> c' = c)"
      using a nv none_c False c1 keeps_visited [OF k13] by (auto simp: s4)
    have "refs s3 T' c' = refs s T' c'"
      using keeps_same [OF k03, of T' c'] a by (simp add: s4)
    then show "refs s4 T' c' = refs s T' c'"
      using ne by (auto simp: s4)
  qed (use k03 in \<open>auto simp: keeps_def s4\<close>)
  moreover have "(T, Some c) \<in> visited s4"
    using keeps_visited [OF k13 c1] by (simp add: s4)
  moreover have "linked swagger s4 T c"
    unfolding linked_def using t vt keeps_Ref [OF k03, of T c] by (auto simp: s4)
  moreover have "settled swagger s4 k" if "k \<in> visited s4" "k \<notin> visited s" "k \<noteq> (T, Some c)" for k
  proof -
    have "k \<in> visited s3" "k \<notin> visited s1"
      using that by (auto simp: s4 s1_def)
    then have "settled swagger s3 k"
      using a13 unfolding advances_def by blast
    then show ?thesis
      unfolding s4 using settled_setValue that(3) same_c none_c by auto
  qed
  ultimately show ?thesis
    unfolding flattened_def by blast
qed

lemma flattened_pending: "flattened swagger T c s s4 \<Longrightarrow> pending s \<Longrightarrow> pending s4"
  using pending_keeps unfolding flattened_def by blast

lemma flattened_finish:
  assumes f: "flattened swagger T c s s4" and a: "advances swagger s4 s'" and d: "descended s' T c"
  shows "advances swagger s s' \<and> (T, Some c) \<in> visited s'"
proof -
  have k4: "keeps s4 s'"
    using a by (rule advances_keeps)
  have k: "keeps s s'"
    using keeps_trans [OF _ k4] f unfolding flattened_def by blast
  have c4: "(T, Some c) \<in> visited s4"
    using f unfolding flattened_def by blast
  have same: "refs s' T c = refs s4 T c"
    using keeps_same [OF k4, of T c] c4 by blast
  have lc: "linked swagger s' T c"
  proof -
    have "settled swagger s4 (T, Some c) \<or> linked swagger s4 T c"
      using f unfolding flattened_def by blast
    then have l4: "linked swagger s4 T c"
      by (auto simp: settled_def)
    show ?thesis
      unfolding linked_def
    proof (intro impI)
      assume "Ref (refs s' T c) \<noteq> []"
      then obtain t where t: "target swagger T (Ref (refs s4 T c)) = Some t" "(T, Some t) \<in> visited s4"
          "Value (refs s4 T c) \<noteq> None \<longrightarrow> Value (refs s4 T t) = Value (refs s4 T c)"
        using l4 same unfolding linked_def by auto
      have "refs s' T t = refs s4 T t"
        using keeps_same [OF k4, of T t] t(2) by blast
      then show "\<exists>t. target swagger T (Ref (refs s' T c)) = Some t \<and> (T, Some t) \<in> visited s' \<and>
             (Value (refs s' T c) \<noteq> None \<longrightarrow> Value (refs s' T t) = Value (refs s' T c))"
        using t same keeps_visited [OF k4] by auto
    qed
  qed
  have "settled swagger s' k" if "k \<in> visited s'" "k \<notin> visited s" for k
  proof (cases "k = (T, Some c)")
    case True
    then show ?thesis using lc d by (simp add: settled_def)
  next
    case False
    show ?thesis
    proof (cases "k \<in> visited s4")
      case True
      then have "settled swagger s4 k"
        using f that(2) False unfolding flattened_def by blast
      then show ?thesis
        using settled_keeps True k4 by blast
    next
      case False
      then show ?thesis
        using a that(1) unfolding advances_def by blast
    qed
  qed
  then show ?thesis
    using k keeps_visited [OF k4 c4] unfolding advances_def by blast
qed

subsection \<open>Rules for calls that return nil\<close>

lemma ensures_simps [simp]:
  "ensures (Return None s) Q = Q s"
  "ensures (Return (Some e) s) Q"
  "ensures Panic Q"
  "ensures Diverged Q"
  by (simp_all add: ensures_def)

lemma ensures_andThen:
  "ensures r P \<Longrightarrow> (\<And>t. P t \<Longrightarrow> ensures (k t) Q) \<Longrightarrow> ensures (andThen r k) Q"
  by (auto simp: ensures_def andThen_Return_None)

lemma ensures_weaken: "ensures r P \<Longrightarrow> (\<And>t. P t \<Longrightarrow> Q t) \<Longrightarrow> ensures r Q"
  by (auto simp: ensures_def)

lemma ensures_forEach:
  assumes "I [] s" and "\<And>x t ys. x \<in> set xs \<Longrightarrow> I ys t \<Longrightarrow> ensures (f x t) (I (ys @ [x]))"
  shows "ensures (forEach f xs s) (I xs)"
proof -
  have "I ys t \<Longrightarrow> (\<And>x t ys. x \<in> set zs \<Longrightarrow> I ys t \<Longrightarrow> ensures (f x t) (I (ys @ [x])))
      \<Longrightarrow> ensures (forEach f zs t) (I (ys @ zs))" for ys zs t
  proof (induction zs arbitrary: ys t)
    case Nil
    then show ?case by simp
  next
    case (Cons z zs)
    have "ensures (f z t) (I (ys @ [z]))"
      using Cons.prems by simp
    moreover have "ensures (forEach f zs u) (I ((ys @ [z]) @ zs))" if "I (ys @ [z]) u" for u
      using Cons.IH [OF that] Cons.prems(2) by simp
    ultimately show ?case
      by (auto intro: ensures_andThen)
  qed
  from this [of "[]" s xs] assms show ?thesis by simp
qed

lemma ensures_forEach_advances:
  assumes "pending s"
    and "\<And>x t. x \<in> set xs \<Longrightarrow> pending t \<Longrightarrow> ensures (f x t) (\<lambda>t'. advances swagger t t' \<and> Q x t')"
    and mono: "\<And>x t t'. Q x t \<Longrightarrow> keeps t t' \<Longrightarrow> Q x t'"
  shows "ensures (forEach f xs s) (\<lambda>s'. advances swagger s s' \<and> (\<forall>x\<in>set xs. Q x s'))"
proof (rule ensures_weaken)
  show "ensures (forEach f xs s) ((\<lambda>ys t. advances swagger s t \<and> (\<forall>x\<in>set ys. Q x t)) xs)"
  proof (rule ensures_forEach)
    show "advances swagger s s \<and> (\<forall>x\<in>set []. Q x s)"
      by (simp add: advances_refl)
  next
    fix x t ys
    assume x: "x \<in> set xs" and I: "advances swagger s t \<and> (\<forall>x\<in>set ys. Q x t)"
    have pt: "pending t"
      using pending_keeps [OF assms(1)] I advances_keeps by blast
    show "ensures (f x t) (\<lambda>t'. advances swagger s t' \<and> (\<forall>x\<in>set (ys @ [x]). Q x t'))"
    proof (rule ensures_weaken [OF assms(2) [OF x pt]])
      fix t'
      assume "advances swagger t t' \<and> Q x t'"
      then show "advances swagger s t' \<and> (\<forall>x\<in>set (ys @ [x]). Q x t')"
        using I advances_trans mono advances_keeps by (metis Un_iff insertE list.set(1,2) set_append empty_iff)
    qed
  qed
qed simp

lemma resolveComponent_local:
  "\<not> IsExternalRefsAllowed L \<Longrightarrow>
   resolveComponent L E load swagger ref prefix s =
     (if HasPrefix ref ''#'' then
        (if \<not> HasPrefix ref prefix then Return (Inl (UnresolvableFragment ref)) s
         else if CHR ''/'' \<in> set (drop (length prefix) ref)
         then Return (Inl (UnresolvableFragmentPart ref (drop (length prefix) ref))) s
         else Return (Inr (Components swagger, drop (length prefix) ref)) s)
      else Return (Inl (DisallowedExternalRef ref)) s)"
  by (simp add: resolveComponent_def failedToResolveRefFragment_def failedToResolveRefFragmentPart_def)

lemma mono_visited: "(T, x) \<in> visited t \<Longrightarrow> keeps t t' \<Longrightarrow> (T, x) \<in> visited t'"
  by (rule keeps_visited)

subsection \<open>The resolver of schemas\<close>

lemma ensures_optional:
  assumes IH: "\<And>q t. pending t \<Longrightarrow>
      ensures (resolve q t) (\<lambda>t'. advances swagger t t' \<and> (SchemaRefT, q) \<in> visited t')"
    and "pending s"
  shows "ensures (case ptr of None \<Rightarrow> Return None s | Some a \<Rightarrow> resolve (Some a) s)
           (\<lambda>s'. advances swagger s s' \<and> (\<forall>p\<in>set (nonNil ptr). (SchemaRefT, p) \<in> visited s'))"
  using IH [OF assms(2)] by (cases ptr) (simp_all add: nonNil_def advances_refl)

lemma schema_descent:
  assumes IH: "\<And>q t. pending t \<Longrightarrow>
      ensures (resolve q t) (\<lambda>t'. advances swagger t t' \<and> (SchemaRefT, q) \<in> visited t')"
    and p4: "pending s4" and c4: "(SchemaRefT, Some c) \<in> visited s4" and v: "Value (schemaRefs s4 c) = Some v"
  shows "ensures
     (andThen (case Items (schemas s4 v) of None \<Rightarrow> Return None s4 | Some items \<Rightarrow> resolve (Some items) s4)
        (\<lambda>s5. andThen (forEach (\<lambda>property s. resolve property s) (entries (Properties (schemas s5 v))) s5)
           (\<lambda>s6. case AdditionalProperties (schemas s6 v) of
                    None \<Rightarrow> Return None s6
                  | Some additional \<Rightarrow> resolve (Some additional) s6)))
     (\<lambda>s'. advances swagger s4 s' \<and> descended s' SchemaRefT c)"
proof (rule ensures_andThen [OF ensures_optional [OF IH p4]])
  fix s5
  assume a5: "advances swagger s4 s5 \<and> (\<forall>p\<in>set (nonNil (Items (schemas s4 v))). (SchemaRefT, p) \<in> visited s5)"
  have k5: "keeps s4 s5"
    using a5 advances_keeps by blast
  have p5: "pending s5"
    using pending_keeps [OF p4 k5] .
  have loop: "ensures (forEach (\<lambda>property s. resolve property s) (entries (Properties (schemas s5 v))) s5)
      (\<lambda>s'. advances swagger s5 s' \<and> (\<forall>x\<in>set (entries (Properties (schemas s5 v))). (SchemaRefT, x) \<in> visited s'))"
    by (rule ensures_forEach_advances [OF p5 IH mono_visited])
  show "ensures (andThen (forEach (\<lambda>property s. resolve property s) (entries (Properties (schemas s5 v))) s5)
           (\<lambda>s6. case AdditionalProperties (schemas s6 v) of
                    None \<Rightarrow> Return None s6
                  | Some additional \<Rightarrow> resolve (Some additional) s6))
     (\<lambda>s'. advances swagger s4 s' \<and> descended s' SchemaRefT c)"
  proof (rule ensures_andThen [OF loop])
    fix s6
    assume a6: "advances swagger s5 s6 \<and>
      (\<forall>x\<in>set (entries (Properties (schemas s5 v))). (SchemaRefT, x) \<in> visited s6)"
    have k6: "keeps s5 s6"
      using a6 advances_keeps by blast
    have p6: "pending s6"
      using pending_keeps [OF p5 k6] .
    show "ensures (case AdditionalProperties (schemas s6 v) of
                    None \<Rightarrow> Return None s6
                  | Some additional \<Rightarrow> resolve (Some additional) s6)
       (\<lambda>s'. advances swagger s4 s' \<and> descended s' SchemaRefT c)"
    proof (rule ensures_weaken [OF ensures_optional [OF IH p6]])
      fix s'
      assume a7: "advances swagger s6 s' \<and>
        (\<forall>p\<in>set (nonNil (AdditionalProperties (schemas s6 v))). (SchemaRefT, p) \<in> visited s')"
      have k7: "keeps s6 s'"
        using a7 advances_keeps by blast
      have k47: "keeps s4 s'"
        using keeps_trans [OF keeps_trans [OF k5 k6] k7] .
      have sch: "schemas s5 = schemas s4" "schemas s6 = schemas s4" "schemas s' = schemas s4"
        using k5 k6 k7 by (simp_all add: keeps_def)
      have same: "refs s' SchemaRefT c = refs s4 SchemaRefT c"
        using keeps_same [OF k47, of SchemaRefT c] c4 by blast
      have "(SchemaRefT, p) \<in> visited s'" if "p \<in> set (nested s' SchemaRefT v)" for p
        using that a5 a6 a7 keeps_visited [OF k6] keeps_visited [OF k7]
        by (auto simp: nested_def sch)
      then have "descended s' SchemaRefT c"
        using same v by (auto simp: descended_def)
      then show "advances swagger s4 s' \<and> descended s' SchemaRefT c"
        using a5 a6 a7 advances_trans by blast
    qed
  qed
qed

lemma ensures_flattened:
  assumes "ensures r (flattens resolve swagger T c s)" and "pending s" and "(T, Some c) \<notin> visited s"
    and "\<And>q t. pending t \<Longrightarrow> ensures (resolve q t) (\<lambda>t'. advances swagger t t' \<and> (T, q) \<in> visited t')"
  shows "ensures r (flattened swagger T c s)"
proof (rule ensures_weaken [OF assms(1)])
  fix s4
  assume f: "flattens resolve swagger T c s s4"
  have IH': "advances swagger t t' \<and> (T, q) \<in> visited t'"
    if "pending t" "resolve q t = Return None t'" for q t t'
    using assms(4) [OF that(1), of q] that(2) by (simp add: ensures_def)
  show "flattened swagger T c s s4"
    using flattens_flattened [OF f assms(2,3) IH'] .
qed

lemma ensures_finish:
  assumes f: "flattened swagger T c s s4" and p: "pending s"
    and r: "pending s4 \<Longrightarrow> (T, Some c) \<in> visited s4 \<Longrightarrow>
            ensures r (\<lambda>s'. advances swagger s4 s' \<and> descended s' T c)"
  shows "ensures r (\<lambda>s'. advances swagger s s' \<and> (T, Some c) \<in> visited s')"
proof -
  have p4: "pending s4"
    using flattened_pending [OF f p] .
  have c4: "(T, Some c) \<in> visited s4"
    using f unfolding flattened_def by blast
  show ?thesis
  proof (rule ensures_weaken [OF r [OF p4 c4]])
    fix s'
    assume "advances swagger s4 s' \<and> descended s' T c"
    then show "advances swagger s s' \<and> (T, Some c) \<in> visited s'"
      using flattened_finish [OF f] by blast
  qed
qed

lemma resolveSchemaRef_ensures:
  assumes ext: "\<not> IsExternalRefsAllowed L"
  shows "pending s \<Longrightarrow>
    ensures (resolveSchemaRef n L E load swagger p s)
      (\<lambda>s'. advances swagger s s' \<and> (SchemaRefT, p) \<in> visited s')"
proof (induction n arbitrary: p s)
  case 0
  then show ?case by simp
next
  case (Suc n)
  note IH = Suc.IH
  show ?case
  proof (cases "(SchemaRefT, p) \<in> visited s")
    case True
    then show ?thesis by (simp add: advances_refl)
  next
    case nv: False
    show ?thesis
    proof (cases p)
      case None
      then show ?thesis using nv by simp
    next
      case (Some c)
      have nvc: "(SchemaRefT, Some c) \<notin> visited s"
        using nv Some by simp
      show ?thesis
        unfolding Some
        apply (subst resolveSchemaRef.simps)
        apply (simp only: nvc if_False option.case)
        apply (rule ensures_andThen [where P = "flattened swagger SchemaRefT c s"])
         apply (rule ensures_flattened [OF _ Suc.prems nvc IH])
          apply (auto simp: Let_def resolveComponent_local [OF ext] ensures_def andThen_Return_None
            flattens_def target_def prefixOf_def tableOf_def failedToResolveRefFragmentPart_def
            split: option.split)[1]
         apply assumption
        apply (erule ensures_finish [OF _ Suc.prems])
        subgoal for s4
          apply (cases "Value (schemaRefs s4 c)")
           apply simp
          apply (simp only: option.case)
          apply (rule schema_descent [where resolve = "resolveSchemaRef n L E load swagger"])
             apply (rule IH)
             apply assumption+
          done
        done
    qed
  qed
qed

subsection \<open>The other resolvers\<close>

lemma descended_no_Value: "T \<noteq> SchemaRefT \<Longrightarrow> Value (refs s T c) = None \<Longrightarrow> descended s T c"
  by (simp add: descended_def)

lemma single_descent:
  assumes IH: "\<And>q t. pending t \<Longrightarrow>
      ensures (resolve q t) (\<lambda>t'. advances swagger t t' \<and> (SchemaRefT, q) \<in> visited t')"
    and p4: "pending s4" and c4: "(T, Some c) \<in> visited s4" and T: "T \<noteq> SchemaRefT"
    and nest: "\<And>s' v. keeps s4 s' \<Longrightarrow> nested s' T v = nonNil (ptr v)"
  shows "ensures
     (case Value (refs s4 T c) of
        None \<Rightarrow> Return None s4
      | Some v \<Rightarrow> (case ptr v of None \<Rightarrow> Return None s4 | Some schema \<Rightarrow> resolve (Some schema) s4))
     (\<lambda>s'. advances swagger s4 s' \<and> descended s' T c)"
proof (cases "Value (refs s4 T c)")
  case None
  then show ?thesis
    using T by (simp add: advances_refl descended_no_Value)
next
  case (Some v)
  have "ensures (case ptr v of None \<Rightarrow> Return None s4 | Some schema \<Rightarrow> resolve (Some schema) s4)
     (\<lambda>s'. advances swagger s4 s' \<and> descended s' T c)"
  proof (rule ensures_weaken [OF ensures_optional [OF IH p4]])
    fix s'
    assume a: "advances swagger s4 s' \<and> (\<forall>p\<in>set (nonNil (ptr v)). (SchemaRefT, p) \<in> visited s')"
    have k: "keeps s4 s'"
      using a advances_keeps by blast
    have "refs s' T c = refs s4 T c"
      using keeps_same [OF k, of T c] c4 by blast
    then have "descended s' T c"
      using a Some T nest [OF k] by (auto simp: descended_def)
    then show "advances swagger s4 s' \<and> descended s' T c"
      using a by blast
  qed
  then show ?thesis
    using Some by simp
qed

lemma content_descent:
  assumes p4: "pending s4" and c4: "(T, Some c) \<in> visited s4" and T: "T \<noteq> SchemaRefT"
    and nest: "\<And>v. nested s4 T v =
        concat (map (\<lambda>contentType. case contentType of None \<Rightarrow> [] | Some ct \<Rightarrow> nonNil (Schema (contentTypes s4 ct)))
          (entries (content v)))"
    and body: "\<And>x t. pending t \<Longrightarrow> ensures (f x t)
        (\<lambda>t'. advances swagger t t' \<and>
            (\<forall>p\<in>set (case x of None \<Rightarrow> [] | Some ct \<Rightarrow> nonNil (Schema (contentTypes t' ct))).
                (SchemaRefT, p) \<in> visited t'))"
  shows "ensures
     (case Value (refs s4 T c) of
        None \<Rightarrow> Return None s4
      | Some v \<Rightarrow> forEach f (entries (content v)) s4)
     (\<lambda>s'. advances swagger s4 s' \<and> descended s' T c)"
proof (cases "Value (refs s4 T c)")
  case None
  then show ?thesis
    using T by (simp add: advances_refl descended_no_Value)
next
  case (Some v)
  have mono: "\<forall>p\<in>set (case x of None \<Rightarrow> [] | Some ct \<Rightarrow> nonNil (Schema (contentTypes t' ct))).
                (SchemaRefT, p) \<in> visited t'"
    if "\<forall>p\<in>set (case x of None \<Rightarrow> [] | Some ct \<Rightarrow> nonNil (Schema (contentTypes t ct))).
                (SchemaRefT, p) \<in> visited t" "keeps t t'" for x t t'
    using that by (auto simp: keeps_def split: option.splits)
  have "ensures (forEach f (entries (content v)) s4) (\<lambda>s'. advances swagger s4 s' \<and> descended s' T c)"
  proof (rule ensures_weaken [OF ensures_forEach_advances [OF p4 body]])
    show "\<forall>p\<in>set (case x of None \<Rightarrow> [] | Some ct \<Rightarrow> nonNil (Schema (contentTypes t' ct))).
                (SchemaRefT, p) \<in> visited t'"
      if "\<forall>p\<in>set (case x of None \<Rightarrow> [] | Some ct \<Rightarrow> nonNil (Schema (contentTypes t ct))).
                (SchemaRefT, p) \<in> visited t" "keeps t t'" for x t t'
      using mono [OF that] .
  next
    fix s'
    assume a: "advances swagger s4 s' \<and>
      (\<forall>x\<in>set (entries (content v)).
         \<forall>p\<in>set (case x of None \<Rightarrow> [] | Some ct \<Rightarrow> nonNil (Schema (contentTypes s' ct))).
            (SchemaRefT, p) \<in> visited s')"
    have k: "keeps s4 s'"
      using a advances_keeps by blast
    have ct: "contentTypes s' = contentTypes s4"
      using k by (simp add: keeps_def)
    have same: "refs s' T c = refs s4 T c"
      using keeps_same [OF k, of T c] c4 by blast
    have "(SchemaRefT, p) \<in> visited s'" if "p \<in> set (nested s4 T v)" for p
      using that a unfolding nest ct by auto
    then have "descended s' T c"
      using Some T same nested_keeps [OF k] by (auto simp: descended_def)
    then show "advances swagger s4 s' \<and> descended s' T c"
      using a by blast
  qed assumption
  then show ?thesis
    using Some by simp
qed

lemma same_Schema: "Schema r = x \<Longrightarrow> r\<lparr>Schema := x\<rparr> = r"
  by auto

lemma write_back:
  "contentTypes s' = contentTypes s \<Longrightarrow> Schema (contentTypes s ct) = Some schema \<Longrightarrow>
   s'\<lparr>contentTypes := (contentTypes s')(ct := (contentTypes s' ct)\<lparr>Schema := Some schema\<rparr>)\<rparr> = s'"
  by (simp add: same_Schema)

lemma resolveHeaderRef_ensures:
  assumes ext: "\<not> IsExternalRefsAllowed L"
  shows "pending s \<Longrightarrow>
    ensures (resolveHeaderRef n L E load swagger p s)
      (\<lambda>s'. advances swagger s s' \<and> (HeaderRefT, p) \<in> visited s')"
proof (induction n arbitrary: p s)
  case 0
  then show ?case by simp
next
  case (Suc n)
  note IH = Suc.IH
  show ?case
  proof (cases "(HeaderRefT, p) \<in> visited s")
    case True
    then show ?thesis by (simp add: advances_refl)
  next
    case nv: False
    show ?thesis
    proof (cases p)
      case None
      then show ?thesis using nv by simp
    next
      case (Some c)
      have nvc: "(HeaderRefT, Some c) \<notin> visited s"
        using nv Some by simp
      show ?thesis
        unfolding Some
        apply (subst resolveHeaderRef.simps)
        apply (simp only: nvc if_False option.case)
        apply (rule ensures_andThen [where P = "flattened swagger HeaderRefT c s"])
         apply (rule ensures_flattened [OF _ Suc.prems nvc IH])
          apply (auto simp: Let_def resolveComponent_local [OF ext] ensures_def andThen_Return_None
            flattens_def target_def prefixOf_def tableOf_def failedToResolveRefFragment_def
            split: option.split)[1]
         apply assumption
        apply (erule ensures_finish [OF _ Suc.prems])
        subgoal for s4
          apply (rule single_descent [where resolve = "resolveSchemaRef n L E load swagger"
                and ptr = "\<lambda>v. Schema (headers s4 v)"])
              apply (rule resolveSchemaRef_ensures [OF ext])
              apply assumption+
           apply simp
          apply (simp add: nested_def keeps_def)
          done
        done
    qed
  qed
qed

lemma resolveParameterRef_ensures:
  assumes ext: "\<not> IsExternalRefsAllowed L"
  shows "pending s \<Longrightarrow>
    ensures (resolveParameterRef n L E load swagger p s)
      (\<lambda>s'. advances swagger s s' \<and> (ParameterRefT, p) \<in> visited s')"
proof (induction n arbitrary: p s)
  case 0
  then show ?case by simp
next
  case (Suc n)
  note IH = Suc.IH
  show ?case
  proof (cases "(ParameterRefT, p) \<in> visited s")
    case True
    then show ?thesis by (simp add: advances_refl)
  next
    case nv: False
    show ?thesis
    proof (cases p)
      case None
      then show ?thesis using nv by simp
    next
      case (Some c)
      have nvc: "(ParameterRefT, Some c) \<notin> visited s"
        using nv Some by simp
      show ?thesis
        unfolding Some
        apply (subst resolveParameterRef.simps)
        apply (simp only: nvc if_False option.case)
        apply (rule ensures_andThen [where P = "flattened swagger ParameterRefT c s"])
         apply (rule ensures_flattened [OF _ Suc.prems nvc IH])
          apply (auto simp: Let_def resolveComponent_local [OF ext] ensures_def andThen_Return_None
            flattens_def target_def prefixOf_def tableOf_def failedToResolveRefFragmentPart_def
            split: option.split)[1]
         apply assumption
        apply (erule ensures_finish [OF _ Suc.prems])
        subgoal for s4
          apply (rule single_descent [where resolve = "resolveSchemaRef n L E load swagger"
                and ptr = "\<lambda>v. Schema (parameters s4 v)"])
              apply (rule resolveSchemaRef_ensures [OF ext])
              apply assumption+
           apply simp
          apply (simp add: nested_def keeps_def)
          done
        done
    qed
  qed
qed

lemma resolveSecuritySchemeRef_ensures:
  assumes ext: "\<not> IsExternalRefsAllowed L"
  shows "pending s \<Longrightarrow>
    ensures (resolveSecuritySchemeRef n L E load swagger p s)
      (\<lambda>s'. advances swagger s s' \<and> (SecuritySchemeRefT, p) \<in> visited s')"
proof (induction n arbitrary: p s)
  case 0
  then show ?case by simp
next
  case (Suc n)
  note IH = Suc.IH
  show ?case
  proof (cases "(SecuritySchemeRefT, p) \<in> visited s")
    case True
    then show ?thesis by (simp add: advances_refl)
  next
    case nv: False
    show ?thesis
    proof (cases p)
      case None
      then show ?thesis using nv by simp
    next
      case (Some c)
      have nvc: "(SecuritySchemeRefT, Some c) \<notin> visited s"
        using nv Some by simp
      have fin: "advances swagger s s4 \<and> (SecuritySchemeRefT, Some c) \<in> visited s4"
        if "flattened swagger SecuritySchemeRefT c s s4" for s4
        using flattened_finish [OF that advances_refl] by (simp add: descended_def nested_def)
      show ?thesis
        unfolding Some
        apply (subst resolveSecuritySchemeRef.simps)
        apply (simp only: nvc if_False option.case)
        apply (rule ensures_weaken [where P = "flattened swagger SecuritySchemeRefT c s"])
         apply (rule ensures_flattened [OF _ Suc.prems nvc IH])
          apply (auto simp: Let_def resolveComponent_local [OF ext] ensures_def andThen_Return_None
            flattens_def target_def prefixOf_def tableOf_def failedToResolveRefFragmentPart_def
            split: option.split)[1]
         apply assumption
        apply (erule fin)
        done
    qed
  qed
qed

lemma content_body:
  assumes ext: "\<not> IsExternalRefsAllowed L" and "pending t"
  shows "ensures
     (case x of
        None \<Rightarrow> Panic
      | Some ct \<Rightarrow>
          (case Schema (contentTypes t ct) of
             None \<Rightarrow> Return None t
           | Some schema \<Rightarrow> resolveSchemaRef n L E load swagger (Some schema) t))
     (\<lambda>t'. advances swagger t t' \<and>
        (\<forall>p\<in>set (case x of None \<Rightarrow> [] | Some ct \<Rightarrow> nonNil (Schema (contentTypes t' ct))).
           (SchemaRefT, p) \<in> visited t'))"
proof (cases x)
  case None
  then show ?thesis by simp
next
  case (Some ct)
  show ?thesis
  proof (cases "Schema (contentTypes t ct)")
    case None
    then show ?thesis using Some by (simp add: advances_refl nonNil_def)
  next
    case (Some a)
    have "ensures (resolveSchemaRef n L E load swagger (Some a) t)
      (\<lambda>t'. advances swagger t t' \<and> (\<forall>p\<in>set (nonNil (Schema (contentTypes t' ct))). (SchemaRefT, p) \<in> visited t'))"
    proof (rule ensures_weaken [OF resolveSchemaRef_ensures [OF ext assms(2)]])
      fix t'
      assume a: "advances swagger t t' \<and> (SchemaRefT, Some a) \<in> visited t'"
      then have "contentTypes t' = contentTypes t"
        by (simp add: advances_def keeps_def)
      then show "advances swagger t t' \<and> (\<forall>p\<in>set (nonNil (Schema (contentTypes t' ct))). (SchemaRefT, p) \<in> visited t')"
        using a Some by (simp add: nonNil_def)
    qed
    then show ?thesis
      using Some \<open>x = Some ct\<close> by simp
  qed
qed

lemma content_body_written:
  assumes ext: "\<not> IsExternalRefsAllowed L" and "pending t"
  shows "ensures
     (case x of
        None \<Rightarrow> Return None t
      | Some ct \<Rightarrow>
          (case Schema (contentTypes t ct) of
             None \<Rightarrow> Return None t
           | Some schema \<Rightarrow>
               andThen (resolveSchemaRef n L E load swagger (Some schema) t)
                 (\<lambda>s'. Return None (s'\<lparr>contentTypes := (contentTypes s')
                    (ct := (contentTypes s' ct)\<lparr>Schema := Some schema\<rparr>)\<rparr>))))
     (\<lambda>t'. advances swagger t t' \<and>
        (\<forall>p\<in>set (case x of None \<Rightarrow> [] | Some ct \<Rightarrow> nonNil (Schema (contentTypes t' ct))).
           (SchemaRefT, p) \<in> visited t'))"
proof (cases x)
  case None
  then show ?thesis by (simp add: advances_refl)
next
  case (Some ct)
  show ?thesis
  proof (cases "Schema (contentTypes t ct)")
    case None
    then show ?thesis using Some by (simp add: advances_refl nonNil_def)
  next
    case (Some a)
    have "ensures (andThen (resolveSchemaRef n L E load swagger (Some a) t)
                 (\<lambda>s'. Return None (s'\<lparr>contentTypes := (contentTypes s')
                    (ct := (contentTypes s' ct)\<lparr>Schema := Some a\<rparr>)\<rparr>)))
      (\<lambda>t'. advances swagger t t' \<and> (\<forall>p\<in>set (nonNil (Schema (contentTypes t' ct))). (SchemaRefT, p) \<in> visited t'))"
    proof (rule ensures_andThen [OF resolveSchemaRef_ensures [OF ext assms(2)]])
      fix t'
      assume a: "advances swagger t t' \<and> (SchemaRefT, Some a) \<in> visited t'"
      then have c: "contentTypes t' = contentTypes t"
        by (simp add: advances_def keeps_def)
      have w: "t'\<lparr>contentTypes := (contentTypes t')(ct := (contentTypes t' ct)\<lparr>Schema := Some a\<rparr>)\<rparr> = t'"
        using write_back [OF c Some] .
      show "ensures (Return None (t'\<lparr>contentTypes := (contentTypes t')(ct := (contentTypes t' ct)\<lparr>Schema := Some a\<rparr>)\<rparr>))
         (\<lambda>t'. advances swagger t t' \<and> (\<forall>p\<in>set (nonNil (Schema (contentTypes t' ct))). (SchemaRefT, p) \<in> visited t'))"
        unfolding w using a c Some by (simp add: nonNil_def)
    qed
    then show ?thesis
      using Some \<open>x = Some ct\<close> by simp
  qed
qed

lemma resolveRequestBodyRef_ensures:
  assumes ext: "\<not> IsExternalRefsAllowed L"
  shows "pending s \<Longrightarrow>
    ensures (resolveRequestBodyRef n L E load swagger p s)
      (\<lambda>s'. advances swagger s s' \<and> (RequestBodyRefT, p) \<in> visited s')"
proof (induction n arbitrary: p s)
  case 0
  then show ?case by simp
next
  case (Suc n)
  note IH = Suc.IH
  show ?case
  proof (cases "(RequestBodyRefT, p) \<in> visited s")
    case True
    then show ?thesis by (simp add: advances_refl)
  next
    case nv: False
    show ?thesis
    proof (cases p)
      case None
      then show ?thesis using nv by simp
    next
      case (Some c)
      have nvc: "(RequestBodyRefT, Some c) \<notin> visited s"
        using nv Some by simp
      show ?thesis
        unfolding Some
        apply (subst resolveRequestBodyRef.simps)
        apply (simp only: nvc if_False option.case)
        apply (rule ensures_andThen [where P = "flattened swagger RequestBodyRefT c s"])
         apply (rule ensures_flattened [OF _ Suc.prems nvc IH])
          apply (auto simp: Let_def resolveComponent_local [OF ext] ensures_def andThen_Return_None
            flattens_def target_def prefixOf_def tableOf_def failedToResolveRefFragmentPart_def
            split: option.split)[1]
         apply assumption
        apply (erule ensures_finish [OF _ Suc.prems])
        subgoal for s4
          apply (rule content_descent [where content = "\<lambda>v. Content (requestBodies s4 v)"])
              apply assumption+
            apply simp
           apply (simp add: nested_def)
          apply (rule content_body [OF ext])
          apply assumption
          done
        done
    qed
  qed
qed

lemma resolveResponseRef_ensures:
  assumes ext: "\<not> IsExternalRefsAllowed L"
  shows "pending s \<Longrightarrow>
    ensures (resolveResponseRef n L E load swagger p s)
      (\<lambda>s'. advances swagger s s' \<and> (ResponseRefT, p) \<in> visited s')"
proof (induction n arbitrary: p s)
  case 0
  then show ?case by simp
next
  case (Suc n)
  note IH = Suc.IH
  show ?case
  proof (cases "(ResponseRefT, p) \<in> visited s")
    case True
    then show ?thesis by (simp add: advances_refl)
  next
    case nv: False
    show ?thesis
    proof (cases p)
      case None
      then show ?thesis using nv by simp
    next
      case (Some c)
      have nvc: "(ResponseRefT, Some c) \<notin> visited s"
        using nv Some by simp
      show ?thesis
        unfolding Some
        apply (subst resolveResponseRef.simps)
        apply (simp only: nvc if_False option.case)
        apply (rule ensures_andThen [where P = "flattened swagger ResponseRefT c s"])
         apply (rule ensures_flattened [OF _ Suc.prems nvc IH])
          apply (auto simp: Let_def resolveComponent_local [OF ext] ensures_def andThen_Return_None
            flattens_def target_def prefixOf_def tableOf_def failedToResolveRefFragmentPart_def
            split: option.split)[1]
         apply assumption
        apply (erule ensures_finish [OF _ Suc.prems])
        subgoal for s4
          apply (rule content_descent [where content = "\<lambda>v. Content (responses s4 v)"])
              apply assumption+
            apply simp
           apply (simp add: nested_def)
          apply (rule content_body_written [OF ext])
          apply assumption
          done
        done
    qed
  qed
qed

subsection \<open>The walk\<close>

lemma ensures_loop:
  assumes "pending s"
    and "\<And>x t. pending t \<Longrightarrow> ensures (f x t) (\<lambda>t'. advances swagger t t' \<and> (T, x) \<in> visited t')"
  shows "ensures (forEach f xs s) (\<lambda>s'. advances swagger s s' \<and> Pair T ` set xs \<subseteq> visited s')"
  by (rule ensures_weaken [OF ensures_forEach_advances [OF assms(1) assms(2) mono_visited]]) auto

lemma ensures_loop_then:
  assumes p: "pending s" and a: "advances swagger s0 s" and K: "K \<subseteq> visited s"
    and body: "\<And>x t. pending t \<Longrightarrow> ensures (f x t) (\<lambda>t'. advances swagger t t' \<and> (T, x) \<in> visited t')"
    and cont: "\<And>t. pending t \<Longrightarrow> advances swagger s0 t \<Longrightarrow> K \<union> Pair T ` set xs \<subseteq> visited t \<Longrightarrow> ensures (k t) Q"
  shows "ensures (andThen (forEach f xs s) k) Q"
proof (rule ensures_andThen [OF ensures_loop [OF p body]])
  fix t
  assume t: "advances swagger s t \<and> Pair T ` set xs \<subseteq> visited t"
  have kt: "keeps s t"
    using t advances_keeps by blast
  show "ensures (k t) Q"
  proof (rule cont)
    show "pending t"
      using pending_keeps [OF p kt] .
    show "advances swagger s0 t"
      using advances_trans [OF a] t by blast
    show "K \<union> Pair T ` set xs \<subseteq> visited t"
      using K t keeps_visited [OF kt] by blast
  qed
qed

lemma optional_forEach:
  "(case m of None \<Rightarrow> Return None s | Some xs \<Rightarrow> forEach f xs s)
     = forEach f (case m of None \<Rightarrow> [] | Some xs \<Rightarrow> xs) s"
  by (cases m) simp_all

lemma ensures_optional_then:
  assumes p: "pending s" and a: "advances swagger s0 s" and K: "K \<subseteq> visited s"
    and call: "\<And>q t. pending t \<Longrightarrow> ensures (resolve q t) (\<lambda>t'. advances swagger t t' \<and> (T, q) \<in> visited t')"
    and cont: "\<And>t. pending t \<Longrightarrow> advances swagger s0 t \<Longrightarrow> K \<union> Pair T ` set (nonNil ptr) \<subseteq> visited t \<Longrightarrow> ensures (k t) Q"
  shows "ensures (andThen (case ptr of None \<Rightarrow> Return None s | Some a \<Rightarrow> resolve (Some a) s) k) Q"
proof (cases ptr)
  case None
  show ?thesis
    unfolding None using cont [OF p a] K by (simp add: None nonNil_def andThen_def)
next
  case (Some x)
  show ?thesis
    unfolding Some option.case
  proof (rule ensures_andThen [OF call [OF p]])
    fix t
    assume t: "advances swagger s t \<and> (T, Some x) \<in> visited t"
    have kt: "keeps s t"
      using t advances_keeps by blast
    show "ensures (k t) Q"
    proof (rule cont)
      show "pending t"
        using pending_keeps [OF p kt] .
      show "advances swagger s0 t"
        using advances_trans [OF a] t by blast
      show "K \<union> Pair T ` set (nonNil ptr) \<subseteq> visited t"
        using K t keeps_visited [OF kt] by (auto simp: Some nonNil_def)
    qed
  qed
qed

lemma operation_ensures:
  assumes ext: "\<not> IsExternalRefsAllowed L" and p: "pending s"
  shows "ensures
     (andThen
        (case Operation.Parameters operation of
           None \<Rightarrow> Return None s
         | Some params \<Rightarrow>
             forEach (\<lambda>parameter s. resolveParameterRef n L E load swagger parameter s) params s)
        (\<lambda>s'.
           andThen
             (case Operation.RequestBody operation of
                None \<Rightarrow> Return None s'
              | Some requestBody \<Rightarrow> resolveRequestBodyRef n L E load swagger (Some requestBody) s')
             (\<lambda>s''.
                forEach (\<lambda>response s. resolveResponseRef n L E load swagger response s)
                  (entries (Operation.Responses operation)) s'')))
     (\<lambda>t. advances swagger s t \<and> operationRoots operation \<subseteq> visited t)"
  unfolding optional_forEach
proof (rule ensures_loop_then [OF p advances_refl, where K = "{}"])
  show "{} \<subseteq> visited s" by simp
  show "ensures (resolveParameterRef n L E load swagger x t)
      (\<lambda>t'. advances swagger t t' \<and> (ParameterRefT, x) \<in> visited t')" if "pending t" for x t
    using resolveParameterRef_ensures [OF ext that] .
next
  fix t
  assume pt: "pending t" and at: "advances swagger s t"
    and Kt: "{} \<union> Pair ParameterRefT ` set (case Operation.Parameters operation of None \<Rightarrow> [] | Some xs \<Rightarrow> xs)
        \<subseteq> visited t"
  show "ensures
     (andThen
        (case Operation.RequestBody operation of
           None \<Rightarrow> Return None t
         | Some requestBody \<Rightarrow> resolveRequestBodyRef n L E load swagger (Some requestBody) t)
        (\<lambda>s''.
           forEach (\<lambda>response s. resolveResponseRef n L E load swagger response s)
             (entries (Operation.Responses operation)) s''))
     (\<lambda>t. advances swagger s t \<and> operationRoots operation \<subseteq> visited t)"
  proof (rule ensures_optional_then [OF pt at Kt, where resolve = "resolveRequestBodyRef n L E load swagger"])
    show "ensures (resolveRequestBodyRef n L E load swagger q u)
        (\<lambda>t'. advances swagger u t' \<and> (RequestBodyRefT, q) \<in> visited t')" if "pending u" for q u
      using resolveRequestBodyRef_ensures [OF ext that] .
  next
    fix u
    assume pu: "pending u" and au: "advances swagger s u"
      and Ku: "{} \<union> Pair ParameterRefT ` set (case Operation.Parameters operation of None \<Rightarrow> [] | Some xs \<Rightarrow> xs)
          \<union> Pair RequestBodyRefT ` set (nonNil (Operation.RequestBody operation)) \<subseteq> visited u"
    show "ensures
       (forEach (\<lambda>response s. resolveResponseRef n L E load swagger response s)
          (entries (Operation.Responses operation)) u)
       (\<lambda>t. advances swagger s t \<and> operationRoots operation \<subseteq> visited t)"
    proof (rule ensures_weaken [OF ensures_loop [OF pu]])
      show "ensures (resolveResponseRef n L E load swagger x t)
          (\<lambda>t'. advances swagger t t' \<and> (ResponseRefT, x) \<in> visited t')" if "pending t" for x t
        using resolveResponseRef_ensures [OF ext that] .
    next
      fix w
      assume w: "advances swagger u w \<and> Pair ResponseRefT ` set (entries (Operation.Responses operation)) \<subseteq> visited w"
      have "keeps u w"
        using w advances_keeps by blast
      then have v: "visited u \<subseteq> visited w"
        by (simp add: keeps_def)
      have "Pair ParameterRefT ` set (case Operation.Parameters operation of None \<Rightarrow> [] | Some xs \<Rightarrow> xs)
          \<union> Pair RequestBodyRefT ` set (nonNil (Operation.RequestBody operation)) \<subseteq> visited u"
        using Ku by simp
      then have "Pair ParameterRefT ` set (case Operation.Parameters operation of None \<Rightarrow> [] | Some xs \<Rightarrow> xs)
          \<union> Pair RequestBodyRefT ` set (nonNil (Operation.RequestBody operation)) \<subseteq> visited w"
        using v by (rule subset_trans)
      then have "operationRoots operation \<subseteq> visited w"
        unfolding operationRoots_def using w by (simp only: Un_subset_iff simp_thms)
      moreover have "advances swagger s w"
        using advances_trans [OF au] w by blast
      ultimately show "advances swagger s w \<and> operationRoots operation \<subseteq> visited w"
        by simp
    qed
  qed
qed

lemma pathItem_ensures:
  assumes ext: "\<not> IsExternalRefsAllowed L" and p: "pending s"
  shows "ensures
     (case pathItem of
        None \<Rightarrow> Return None s
      | Some operations \<Rightarrow>
          forEach (\<lambda>operation s.
            andThen
              (case Operation.Parameters operation of
                 None \<Rightarrow> Return None s
               | Some params \<Rightarrow>
                   forEach (\<lambda>parameter s. resolveParameterRef n L E load swagger parameter s) params s)
              (\<lambda>s'.
                 andThen
                   (case Operation.RequestBody operation of
                      None \<Rightarrow> Return None s'
                    | Some requestBody \<Rightarrow> resolveRequestBodyRef n L E load swagger (Some requestBody) s')
                   (\<lambda>s''.
                      forEach (\<lambda>response s. resolveResponseRef n L E load swagger response s)
                        (entries (Operation.Responses operation)) s'')))
          operations s)
     (\<lambda>t. advances swagger s t \<and> pathItemRoots pathItem \<subseteq> visited t)"
proof (cases pathItem)
  case None
  then show ?thesis by (simp add: advances_refl pathItemRoots_def)
next
  case (Some operations)
  show ?thesis
    unfolding Some option.case
  proof (rule ensures_weaken [OF ensures_forEach_advances [OF p operation_ensures [OF ext]]])
    show "operationRoots x \<subseteq> visited t'" if "operationRoots x \<subseteq> visited t" "keeps t t'" for x t t'
      using that by (auto simp: keeps_def)
  next
    fix t
    assume "advances swagger s t \<and> (\<forall>x\<in>set operations. operationRoots x \<subseteq> visited t)"
    then show "advances swagger s t \<and> pathItemRoots (Some operations) \<subseteq> visited t"
      by (auto simp: pathItemRoots_def)
  qed assumption
qed

lemma resolveRefsWith_ensures:
  assumes ext: "\<not> IsExternalRefsAllowed L" and p: "pending (s0\<lparr>visited := {}\<rparr>)"
  shows "ensures (resolveRefsWith load n L E swagger s0)
     (\<lambda>s'. advances swagger (s0\<lparr>visited := {}\<rparr>) s' \<and> roots swagger \<subseteq> visited s')"
  unfolding resolveRefsWith_def
proof (rule ensures_loop_then [OF p advances_refl, where K = "{}"], simp,
       rule resolveHeaderRef_ensures [OF ext], assumption,
       rule ensures_loop_then, assumption+, rule resolveParameterRef_ensures [OF ext], assumption,
       rule ensures_loop_then, assumption+, rule resolveRequestBodyRef_ensures [OF ext], assumption,
       rule ensures_loop_then, assumption+, rule resolveResponseRef_ensures [OF ext], assumption,
       rule ensures_loop_then, assumption+, rule resolveSchemaRef_ensures [OF ext], assumption,
       rule ensures_loop_then, assumption+, rule resolveSecuritySchemeRef_ensures [OF ext], assumption)
  fix t
  assume pt: "pending t" and at: "advances swagger (s0\<lparr>visited := {}\<rparr>) t"
    and K: "{} \<union> Pair HeaderRefT ` set (entries (Headers (Components swagger)))
          \<union> Pair ParameterRefT ` set (entries (Components.Parameters (Components swagger)))
          \<union> Pair RequestBodyRefT ` set (entries (RequestBodies (Components swagger)))
          \<union> Pair ResponseRefT ` set (entries (Components.Responses (Components swagger)))
          \<union> Pair SchemaRefT ` set (entries (Schemas (Components swagger)))
          \<union> Pair SecuritySchemeRefT ` set (entries (SecuritySchemes (Components swagger))) \<subseteq> visited t"
  have walk: "ensures
     (forEach (\<lambda>pathItem s.
        case pathItem of
          None \<Rightarrow> Return None s
        | Some operations \<Rightarrow>
            forEach (\<lambda>operation s.
              andThen
                (case Operation.Parameters operation of
                   None \<Rightarrow> Return None s
                 | Some params \<Rightarrow>
                     forEach (\<lambda>parameter s. resolveParameterRef n L E load swagger parameter s) params s)
                (\<lambda>s'.
                   andThen
                     (case Operation.RequestBody operation of
                        None \<Rightarrow> Return None s'
                      | Some requestBody \<Rightarrow> resolveRequestBodyRef n L E load swagger (Some requestBody) s')
                     (\<lambda>s''.
                        forEach (\<lambda>response s. resolveResponseRef n L E load swagger response s)
                          (entries (Operation.Responses operation)) s'')))
            operations s)
        (pathItems swagger) t)
     (\<lambda>s'. advances swagger (s0\<lparr>visited := {}\<rparr>) s' \<and> roots swagger \<subseteq> visited s')"
  proof (rule ensures_weaken [OF ensures_forEach_advances [OF pt pathItem_ensures [OF ext]]])
    show "pathItemRoots x \<subseteq> visited t'" if "pathItemRoots x \<subseteq> visited t" "keeps t t'" for x t t'
      using that by (auto simp: keeps_def)
  next
    fix s'
    assume s': "advances swagger t s' \<and> (\<forall>x\<in>set (pathItems swagger). pathItemRoots x \<subseteq> visited s')"
    have "keeps t s'"
      using s' advances_keeps by blast
    then have v: "visited t \<subseteq> visited s'"
      by (simp add: keeps_def)
    have "componentRoots swagger \<subseteq> visited t"
      using K by (simp add: componentRoots_def)
    then have "componentRoots swagger \<subseteq> visited s'"
      using v by (rule subset_trans)
    moreover have "\<Union> (pathItemRoots ` set (pathItems swagger)) \<subseteq> visited s'"
      using s' by blast
    ultimately have "roots swagger \<subseteq> visited s'"
      unfolding roots_def by (simp only: Un_subset_iff simp_thms)
    moreover have "advances swagger (s0\<lparr>visited := {}\<rparr>) s'"
      using advances_trans [OF at] s' by blast
    ultimately show "advances swagger (s0\<lparr>visited := {}\<rparr>) s' \<and> roots swagger \<subseteq> visited s'"
      by simp
  qed assumption
  show "ensures
     (case Paths swagger of
        None \<Rightarrow> Return None t
      | Some paths \<Rightarrow>
          forEach (\<lambda>pathItem s.
            case pathItem of
              None \<Rightarrow> Return None s
            | Some operations \<Rightarrow>
                forEach (\<lambda>operation s.
                  andThen
                    (case Operation.Parameters operation of
                       None \<Rightarrow> Return None s
                     | Some params \<Rightarrow>
                         forEach (\<lambda>parameter s. resolveParameterRef n L E load swagger parameter s) params s)
                    (\<lambda>s'.
                       andThen
                         (case Operation.RequestBody operation of
                            None \<Rightarrow> Return None s'
                          | Some requestBody \<Rightarrow> resolveRequestBodyRef n L E load swagger (Some requestBody) s')
                         (\<lambda>s''.
                            forEach (\<lambda>response s. resolveResponseRef n L E load swagger response s)
                              (entries (Operation.Responses operation)) s'')))
                operations s)
          (map snd paths) t)
     (\<lambda>s'. advances swagger (s0\<lparr>visited := {}\<rparr>) s' \<and> roots swagger \<subseteq> visited s')"
    using walk by (cases "Paths swagger") (simp_all add: pathItems_def)
qed

subsection \<open>After the walk\<close>




section \<open>What a successful pass establishes: claim C1, amended\<close>



text \<open>
  Why the heap must be unresolved: in \<open>staleHeap\<close> the schema A carries a reference string
  and a value of its own. The pass returns nil; the items of T, which refer to A, were
  resolved while A was in progress and keep the old value of A, not the one A ends up
  with.
\<close>

lemma ResolveRefsIn_stale_value:
  "\<exists>s'. ResolveRefsIn 4 NewSwaggerLoader noFiles staleStore staleHeap = Return None s' \<and>
     target staleStore SchemaRefT (Ref (schemaRefs s' 2)) = Some 0 \<and>
     Value (schemaRefs s' 2) = Some 5 \<and> Value (schemaRefs s' 0) = Some 6"
  by (simp add: run_defs concrete_defs eval_nat_numeral target_def tableOf_def prefixOf_def)

text \<open>
  A pass that returns nil on a document without reference strings has written nothing
  but the \<^verbatim>\<open>visited\<close> map.
\<close>

lemma ResolveRefsIn_no_reference_strings:
  assumes "\<not> IsExternalRefsAllowed L" and "\<forall>T c. Ref (refs s T c) = []"
    and "ResolveRefsIn n L E swagger s = Return None s'"
  shows "s' = s\<lparr>visited := visited s'\<rparr>"
proof -
  have "pending (s\<lparr>visited := {}\<rparr>)"
    using assms(2) by (simp add: pending_def)
  then have "advances swagger (s\<lparr>visited := {}\<rparr>) s'"
    using resolveRefsWith_ensures [OF assms(1), of s "LoadSwaggerFromURI n L E" n E swagger] assms(3)
    by (simp add: ResolveRefsIn_def ensures_def)
  then have k: "keeps (s\<lparr>visited := {}\<rparr>) s'"
    by (rule advances_keeps)
  have "refs s' T c = refs s T c" for T c
    using keeps_same [OF k, of T c] assms(2) by simp
  then have "refs s' = refs s"
    by (intro ext)
  then show ?thesis
    using k by (simp add: keeps_def)
qed

end
